theory Spec2Isabelle
  imports Main
begin

section \<open>Strings and the regular-expression runtime\<close>

text \<open>
  A JavaScript string is modelled as a \<open>string\<close>: the list of its code units. The model
  covers the code units below 256 (ASCII and the Latin-1 supplement).

  A compiled regular expression is its matcher together with its flags. The matcher
  answers, for a subject and an index into it, the length of the match that begins
  exactly at that index, if there is one (the matcher of the ECMAScript specification,
  called at one index).
\<close>

text \<open>
  \<open>SyntaxError\<close> and \<open>TypeError\<close> are the errors the program can throw, and
  \<open>ReadRejected\<close> is the rejected promise of the host's \<open>read\<close>. \<open>OutsideLatin1\<close> is no
  error of the program: it marks a run in which a string leaves the code units below 256
  (the upper case of the micro sign U+00B5 is U+039C, that of U+00FF is U+0178), about
  which this theory says nothing.
\<close>

datatype error = SyntaxError | TypeError | ReadRejected | OutsideLatin1

type_synonym matcher = "string \<Rightarrow> nat \<Rightarrow> nat option"

record RegExp =
  matcher :: matcher
  flags :: string

definition global :: "RegExp \<Rightarrow> bool" where
  "global r = (CHR ''g'' \<in> set (flags r))"

definition sticky :: "RegExp \<Rightarrow> bool" where
  "sticky r = (CHR ''y'' \<in> set (flags r))"

text \<open>
  The scan of \<open>RegExpBuiltinExec\<close>: try the matcher at \<open>lastIndex\<close>, then at the next
  index, up to the length of the subject (the empty match at the very end counts).
\<close>

function scan :: "matcher \<Rightarrow> string \<Rightarrow> nat \<Rightarrow> (nat \<times> nat) option" where
  "scan m s i =
     (if length s < i then None
      else case m s i of
             Some n \<Rightarrow> Some (i, n)
           | None \<Rightarrow> scan m s (Suc i))"
  by pat_completeness auto
termination
  by (relation "measure (\<lambda>(m, s, i). Suc (length s) - i)") auto

declare scan.simps [simp del]

text \<open>A sticky expression is tried at \<open>lastIndex\<close> only.\<close>

definition exec_from :: "RegExp \<Rightarrow> string \<Rightarrow> nat \<Rightarrow> (nat \<times> nat) option" where
  "exec_from r s i =
     (if sticky r
      then (if length s < i then None
            else case matcher r s i of Some n \<Rightarrow> Some (i, n) | None \<Rightarrow> None)
      else scan (matcher r) s i)"

text \<open>
  \<open>regex.exec(s)\<close> on an expression that was just built (\<open>lastIndex\<close> is 0): the index
  and the length of the first match, or None for \<open>null\<close>.
\<close>

definition RegExp_exec :: "RegExp \<Rightarrow> string \<Rightarrow> (nat \<times> nat) option" where
  "RegExp_exec r s = exec_from r s 0"

lemma scan_bounds: "scan m s i = Some (k, n) \<Longrightarrow> i \<le> k \<and> k \<le> length s"
proof (induction m s i rule: scan.induct)
  case (1 m s i)
  show ?case
  proof (cases "length s < i")
    case True
    with "1.prems" show ?thesis by (simp add: scan.simps)
  next
    case False
    show ?thesis
    proof (cases "m s i")
      case None
      with False "1.prems" have "scan m s (Suc i) = Some (k, n)"
        by (simp add: scan.simps [of m s i])
      with "1.IH" False None show ?thesis by fastforce
    next
      case (Some a)
      with False "1.prems" show ?thesis by (simp add: scan.simps [of m s i])
    qed
  qed
qed

lemma exec_from_bounds: "exec_from r s i = Some (k, n) \<Longrightarrow> i \<le> k \<and> k \<le> length s"
  by (auto simp: exec_from_def dest: scan_bounds split: if_splits option.splits)

text \<open>
  The loop of \<open>String.prototype.replace\<close> for a global expression: collect the matches
  from left to right; after an empty match \<open>lastIndex\<close> moves one code unit on.
\<close>

function collect :: "RegExp \<Rightarrow> string \<Rightarrow> nat \<Rightarrow> (nat \<times> nat) list" where
  "collect r s i =
     (case exec_from r s i of
        None \<Rightarrow> []
      | Some (k, n) \<Rightarrow> (k, n) # collect r s (if n = 0 then Suc k else k + n))"
  by pat_completeness auto
termination
proof (relation "measure (\<lambda>(r, s, i). Suc (length s) - i)")
  show "wf (measure (\<lambda>(r, s, i). Suc (length s) - i))" by simp
next
  fix r s i x2 k n
  assume "exec_from r s i = Some x2" and "(k, n) = x2"
  then have "i \<le> k \<and> k \<le> length s" using exec_from_bounds [of r s i k n] by simp
  then show "((r, s, if n = 0 then Suc k else k + n), r, s, i)
               \<in> measure (\<lambda>(r, s, i). Suc (length s) - i)"
    by auto
qed

declare collect.simps [simp del]

text \<open>
  The result string: the text between the matches, with the replacement in place of each
  match. The replacement strings of this program hold no \<open>$\<close>, so they are copied as
  they are.
\<close>

fun assemble :: "string \<Rightarrow> string \<Rightarrow> nat \<Rightarrow> (nat \<times> nat) list \<Rightarrow> string" where
  "assemble s repl np [] = drop np s"
| "assemble s repl np ((k, n) # rs) =
     (if np \<le> k
      then take (k - np) (drop np s) @ repl @ assemble s repl (k + n) rs
      else assemble s repl np rs)"

definition String_replace :: "string \<Rightarrow> RegExp \<Rightarrow> string \<Rightarrow> string" where
  "String_replace s r repl =
     assemble s repl 0
       (if global r then collect r s 0
        else case exec_from r s 0 of None \<Rightarrow> [] | Some x \<Rightarrow> [x])"


text \<open>
  \<open>new RegExp(pattern, flags)\<close>. The flags are checked as ECMAScript does (each of
  \<open>dgimsuvy\<close> at most once, \<open>u\<close> and \<open>v\<close> not together); an absent or empty pattern is
  the empty pattern \<open>(?:)\<close>, which matches the empty string at every index. The parser
  of non-empty pattern text belongs to the runtime and is the parameter \<open>compile\<close>:
  None when the text is not a pattern (the constructor throws a SyntaxError).
\<close>

type_synonym compiler = "string \<Rightarrow> string \<Rightarrow> matcher option"

definition valid_flags :: "string \<Rightarrow> bool" where
  "valid_flags fl =
     (distinct fl \<and> list_all (\<lambda>c. c \<in> set ''dgimsuvy'') fl
      \<and> \<not> (CHR ''u'' \<in> set fl \<and> CHR ''v'' \<in> set fl))"

definition empty_pattern :: matcher where
  "empty_pattern = (\<lambda>s i. Some 0)"

definition RegExp_new :: "compiler \<Rightarrow> string option \<Rightarrow> string \<Rightarrow> error + RegExp" where
  "RegExp_new compile pattern fl =
     (if \<not> valid_flags fl then Inl SyntaxError
      else let P = (case pattern of None \<Rightarrow> [] | Some p \<Rightarrow> p)
           in if P = [] then Inr \<lparr>matcher = empty_pattern, flags = fl\<rparr>
              else case compile P fl of
                     None \<Rightarrow> Inl SyntaxError
                   | Some m \<Rightarrow> Inr \<lparr>matcher = m, flags = fl\<rparr>)"

text \<open>
  A compiler for pattern text without metacharacters, which matches itself code unit by
  code unit (with no flag that changes matching). It stands for the runtime in the
  closed examples below, which use it on such text only; the theorems are stated for
  every compiler.
\<close>

definition metachars :: string where
  "metachars = [CHR 0x5C, CHR ''^'', CHR ''$'', CHR ''.'', CHR ''*'', CHR ''+'', CHR ''?'',
                CHR ''('', CHR '')'', CHR ''['', CHR '']'', CHR ''{'', CHR ''}'', CHR ''|'']"

definition literal_compile :: compiler where
  "literal_compile P fl =
     (if list_all (\<lambda>c. c \<notin> set metachars) P \<and> list_all (\<lambda>c. c \<in> set ''dgy'') fl
      then Some (\<lambda>s i. if take (length P) (drop i s) = P then Some (length P) else None)
      else None)"

section \<open>The plugin\<close>

subsection \<open>Data\<close>

text \<open>\<open>stockIllegalSymbols = /[\\/:|#^[\]]|\.$/g\<close>: one of eight symbols, or a dot that
  is the last code unit of the subject.\<close>

definition illegal_class :: string where
  "illegal_class = [CHR 0x5C, CHR ''/'', CHR '':'', CHR ''|'', CHR ''#'', CHR ''^'',
                    CHR ''['', CHR '']'']"

definition stockIllegalSymbols :: RegExp where
  "stockIllegalSymbols =
     \<lparr>matcher = (\<lambda>s i. if i < length s \<and> s ! i \<in> set illegal_class then Some 1
                       else if i < length s \<and> s ! i = CHR ''.'' \<and> Suc i = length s then Some 1
                       else None),
      flags = ''g''\<rparr>"

text \<open>The expressions \<open>/-/g\<close> and \<open>/ /g\<close>: one given code unit.\<close>

definition unit_pattern :: "char \<Rightarrow> RegExp" where
  "unit_pattern c =
     \<lparr>matcher = (\<lambda>s i. if i < length s \<and> s ! i = c then Some 1 else None), flags = ''g''\<rparr>"

text \<open>\<open>new RegExp("$^", "g")\<close>: the end of the subject followed by its start, with no
  multiline flag.\<close>

definition end_then_start :: RegExp where
  "end_then_start =
     \<lparr>matcher = (\<lambda>s i. if i = length s \<and> i = 0 then Some 0 else None), flags = ''g''\<rparr>"

record FilenameHeadingSyncPluginSettings =
  userIllegalSymbols :: string
  fileIgnoreRegexen :: "string list"

definition DEFAULT_SETTINGS :: FilenameHeadingSyncPluginSettings where
  "DEFAULT_SETTINGS =
     \<lparr>userIllegalSymbols = [], fileIgnoreRegexen = [''/.*.excalidraw.md$/g'']\<rparr>"

text \<open>A file of the host: \<open>parent\<close> is the path of the parent folder, None for \<open>null\<close>.\<close>

record TFile =
  path :: string
  basename :: string
  extension :: string
  parent :: "string option"

text \<open>A value of the parsed front matter, as far as its truthiness goes.\<close>

datatype fm_value = FNull | FBool bool | FNum int | FStr string | FObject

fun truthy :: "fm_value option \<Rightarrow> bool" where
  "truthy None = False"
| "truthy (Some FNull) = False"
| "truthy (Some (FBool b)) = b"
| "truthy (Some (FNum n)) = (n \<noteq> 0)"
| "truthy (Some (FStr s)) = (s \<noteq> [])"
| "truthy (Some FObject) = True"

record CachedMetadata =
  frontmatter :: "(string \<rightharpoonup> fm_value) option"

text \<open>
  What the plugin asks of the host, in the order of the calls: a notice, a write of a
  document's content, and a rename. A function of the plugin returns the calls it made
  and its outcome: a value, or the error it threw.
\<close>

datatype host_call =
    Notice string
  | VaultModify string string
  | RenameFile string string

type_synonym 'a eff = "host_call list \<times> (error + 'a)"

subsection \<open>deserializeRegExp\<close>

definition line_terminator :: "char \<Rightarrow> bool" where
  "line_terminator c = (c = CHR 0x0A \<or> c = CHR 0x0D)"

definition lower_az :: "char \<Rightarrow> bool" where
  "lower_az c = (c \<in> set ''abcdefghijklmnopqrstuvwxyz'')"

text \<open>
  \<open>regExpString.match(/\/(.*)?\/([a-z]*)/)\<close>, given the text after a slash: \<open>.*\<close> is
  greedy and stays on the line, so the closing slash is the last one of the line; group 1
  is the text before it (undefined when there is none, since an optional group does not
  match the empty string), group 2 the lower-case letters after it.
\<close>

definition match_after_slash :: "string \<Rightarrow> (string option \<times> string) option" where
  "match_after_slash rest =
     (let line = takeWhile (\<lambda>c. \<not> line_terminator c) rest
      in if CHR ''/'' \<in> set line
         then let k = length line - Suc (length (takeWhile (\<lambda>c. c \<noteq> CHR ''/'') (rev line)));
                  g1 = take k line;
                  g2 = takeWhile lower_az (drop (Suc k) rest)
              in Some (if g1 = [] then None else Some g1, g2)
         else None)"

text \<open>The match is the leftmost one: the first slash after which the rest matches.\<close>

fun match_serialized :: "string \<Rightarrow> (string option \<times> string) option" where
  "match_serialized [] = None"
| "match_serialized (c # cs) =
     (if c = CHR ''/''
      then (case match_after_slash cs of
              Some g \<Rightarrow> Some g
            | None \<Rightarrow> match_serialized cs)
      else match_serialized cs)"

definition deserializeRegExp :: "compiler \<Rightarrow> string \<Rightarrow> RegExp eff" where
  "deserializeRegExp compile regExpString =
     (case match_serialized regExpString of
        Some (g1, g2) \<Rightarrow> ([], RegExp_new compile g1 g2)
      | None \<Rightarrow>
          ([Notice (''Invalid RegExp string: '' @ [CHR 0x22] @ regExpString @ [CHR 0x22])],
           Inr end_then_start))"

subsection \<open>sanitizeHeading\<close>

definition white_space :: "char \<Rightarrow> bool" where
  "white_space c =
     (c \<in> set [CHR 0x09, CHR 0x0A, CHR 0x0B, CHR 0x0C, CHR 0x0D, CHR 0x20, CHR 0xA0])"

definition trim :: "string \<Rightarrow> string" where
  "trim s = rev (dropWhile white_space (rev (dropWhile white_space s)))"

definition sanitizeHeading ::
  "compiler \<Rightarrow> FilenameHeadingSyncPluginSettings \<Rightarrow> string \<Rightarrow> string eff" where
  "sanitizeHeading compile settings heading =
     (let heading1 = String_replace heading stockIllegalSymbols []
      in case deserializeRegExp compile (userIllegalSymbols settings) of
           (ns, Inl e) \<Rightarrow> (ns, Inl e)
         | (ns, Inr r) \<Rightarrow> (ns, Inr (trim (String_replace heading1 r []))))"

subsection \<open>getStartLine and getHeadingLine\<close>

text \<open>\<open>lines.indexOf(x, i)\<close>: the first index from \<open>i\<close> on that holds \<open>x\<close>, or -1.\<close>

function indexOf :: "string list \<Rightarrow> string \<Rightarrow> nat \<Rightarrow> int" where
  "indexOf xs x i =
     (if i < length xs then (if xs ! i = x then int i else indexOf xs x (Suc i)) else -1)"
  by pat_completeness auto
termination
  by (relation "measure (\<lambda>(xs, x, i). length xs - i)") auto

declare indexOf.simps [simp del]

definition getStartLine :: "string list \<Rightarrow> int" where
  "getStartLine lines =
     (case lines of
        [] \<Rightarrow> 0
      | l # _ \<Rightarrow> if l = ''---'' then indexOf lines ''---'' 1 + 1 else 0)"

definition startsWith :: "string \<Rightarrow> string \<Rightarrow> bool" where
  "startsWith s p = (take (length p) s = p)"

function heading_loop :: "string list \<Rightarrow> nat \<Rightarrow> int" where
  "heading_loop lines i =
     (if i < length lines
      then (if startsWith (lines ! i) ''# '' then int i else heading_loop lines (Suc i))
      else -1)"
  by pat_completeness auto
termination
  by (relation "measure (\<lambda>(lines, i). length lines - i)") auto

declare heading_loop.simps [simp del]

definition getHeadingLine :: "string list \<Rightarrow> int" where
  "getHeadingLine lines = heading_loop lines (nat (getStartLine lines))"


subsection \<open>The two directions of the sync\<close>

text \<open>\<open>data.split("\n")\<close> and \<open>lines.join("\n")\<close>.\<close>

fun split :: "string \<Rightarrow> string list" where
  "split [] = [[]]"
| "split (c # cs) =
     (if c = CHR 0x0A then [] # split cs
      else case split cs of
             [] \<Rightarrow> [[c]]
           | l # ls \<Rightarrow> (c # l) # ls)"

fun join :: "string list \<Rightarrow> string" where
  "join [] = []"
| "join [l] = l"
| "join (l # ls) = l @ [CHR 0x0A] @ join ls"

text \<open>
  Case mapping on the code units below 256, as \<open>toUpperCase\<close> and \<open>toLowerCase\<close> do it
  (the default case conversion of Unicode): the letters \<open>a\<close> to \<open>z\<close> and U+00E0 to U+00FE
  without the division sign U+00F7 have their upper case 32 code units below; the sharp s
  U+00DF becomes \<open>SS\<close>; the upper case of U+00B5 and of U+00FF lies above 255; every other
  code unit is its own upper case. The letters \<open>A\<close> to \<open>Z\<close> and U+00C0 to U+00DE without
  the multiplication sign U+00D7 have their lower case 32 code units above; every other
  code unit is its own lower case.
\<close>

definition lower_letters :: string where
  "lower_letters = ''abcdefghijklmnopqrstuvwxyz'' @
     [CHR 0xE0, CHR 0xE1, CHR 0xE2, CHR 0xE3, CHR 0xE4, CHR 0xE5, CHR 0xE6, CHR 0xE7,
      CHR 0xE8, CHR 0xE9, CHR 0xEA, CHR 0xEB, CHR 0xEC, CHR 0xED, CHR 0xEE, CHR 0xEF,
      CHR 0xF0, CHR 0xF1, CHR 0xF2, CHR 0xF3, CHR 0xF4, CHR 0xF5, CHR 0xF6,
      CHR 0xF8, CHR 0xF9, CHR 0xFA, CHR 0xFB, CHR 0xFC, CHR 0xFD, CHR 0xFE]"

definition upper_letters :: string where
  "upper_letters = ''ABCDEFGHIJKLMNOPQRSTUVWXYZ'' @
     [CHR 0xC0, CHR 0xC1, CHR 0xC2, CHR 0xC3, CHR 0xC4, CHR 0xC5, CHR 0xC6, CHR 0xC7,
      CHR 0xC8, CHR 0xC9, CHR 0xCA, CHR 0xCB, CHR 0xCC, CHR 0xCD, CHR 0xCE, CHR 0xCF,
      CHR 0xD0, CHR 0xD1, CHR 0xD2, CHR 0xD3, CHR 0xD4, CHR 0xD5, CHR 0xD6,
      CHR 0xD8, CHR 0xD9, CHR 0xDA, CHR 0xDB, CHR 0xDC, CHR 0xDD, CHR 0xDE]"

definition upper_unit :: "char \<Rightarrow> string option" where
  "upper_unit c =
     (if c = CHR 0xDF then Some ''SS''
      else if c = CHR 0xB5 \<or> c = CHR 0xFF then None
      else case map_of (zip lower_letters upper_letters) c of
             Some u \<Rightarrow> Some [u]
           | None \<Rightarrow> Some [c])"

definition lower_unit :: "char \<Rightarrow> char" where
  "lower_unit c =
     (case map_of (zip upper_letters lower_letters) c of
        Some l \<Rightarrow> l
      | None \<Rightarrow> c)"

text \<open>None when the upper case of some code unit lies above 255.\<close>

definition toUpperCase :: "string \<Rightarrow> string option" where
  "toUpperCase s = map_option concat (those (map upper_unit s))"

definition toLowerCase :: "string \<Rightarrow> string" where
  "toLowerCase s = map lower_unit s"

text \<open>
  \<open>vault\<close> is the content the host's \<open>read\<close> resolves with, by path; for a path it does
  not hold the promise is rejected and the callback never runs. \<open>heading[0]\<close> of the empty
  string is \<open>undefined\<close>, and calling \<open>toUpperCase\<close> on it throws a TypeError.
\<close>

definition handleSyncFilenameToHeading ::
  "compiler \<Rightarrow> FilenameHeadingSyncPluginSettings \<Rightarrow> (string \<rightharpoonup> string) \<Rightarrow> TFile \<Rightarrow> unit eff"
where
  "handleSyncFilenameToHeading compile settings vault file =
     (case sanitizeHeading compile settings (basename file) of
        (ns, Inl e) \<Rightarrow> (ns, Inl e)
      | (ns, Inr sanitizedHeading) \<Rightarrow>
          (case String_replace sanitizedHeading (unit_pattern CHR ''-'') '' '' of
             [] \<Rightarrow> (ns, Inl TypeError)
           | c # cs \<Rightarrow>
               (case toUpperCase [c] of
                  None \<Rightarrow> (ns, Inl OutsideLatin1)
                | Some upper \<Rightarrow>
                    (let heading = ''# '' @ upper @ cs
                     in case vault (path file) of
                          None \<Rightarrow> (ns, Inl ReadRejected)
                        | Some data \<Rightarrow>
                            (let lines = split data;
                                 headingLine = getHeadingLine lines;
                                 lines' = (if headingLine \<noteq> -1
                                           then lines[nat headingLine := heading]
                                           else heading # lines)
                             in (ns @ [VaultModify (path file) (join lines')], Inr ()))))))"

definition handleSyncHeadingToFilename ::
  "compiler \<Rightarrow> FilenameHeadingSyncPluginSettings \<Rightarrow> (string \<rightharpoonup> string) \<Rightarrow> TFile \<Rightarrow> unit eff"
where
  "handleSyncHeadingToFilename compile settings vault file =
     (case vault (path file) of
        None \<Rightarrow> ([], Inl ReadRejected)
      | Some data \<Rightarrow>
          (let lines = split data;
               headingLine = getHeadingLine lines
           in if headingLine \<noteq> -1
              then (case sanitizeHeading compile settings (lines ! nat headingLine) of
                      (ns, Inl e) \<Rightarrow> (ns, Inl e)
                    | (ns, Inr heading) \<Rightarrow>
                        (let heading1 = String_replace heading (unit_pattern CHR '' '') ''-'';
                             heading2 = toLowerCase heading1;
                             newPath = (case parent file of None \<Rightarrow> ''undefined'' | Some p \<Rightarrow> p)
                                       @ ''/'' @ heading2 @ ''.md''
                         in (ns @ [RenameFile (path file) newPath], Inr ())))
              else handleSyncFilenameToHeading compile settings vault file))"

subsection \<open>ignoreFile\<close>

text \<open>The loop over \<open>fileIgnoreRegexen\<close>: each entry is deserialized when its turn
  comes, and the first one whose \<open>exec\<close> on the path is not \<open>null\<close> ends the loop.\<close>

fun ignore_loop :: "compiler \<Rightarrow> string list \<Rightarrow> string \<Rightarrow> bool eff" where
  "ignore_loop compile [] p = ([], Inr False)"
| "ignore_loop compile (x # xs) p =
     (case deserializeRegExp compile x of
        (ns, Inl e) \<Rightarrow> (ns, Inl e)
      | (ns, Inr regex) \<Rightarrow>
          (if RegExp_exec regex p \<noteq> None then (ns, Inr True)
           else (case ignore_loop compile xs p of (ns', res) \<Rightarrow> (ns @ ns', res))))"

text \<open>\<open>fileCache\<close> is what \<open>metadataCache.getFileCache(file)\<close> returned, None for
  \<open>null\<close>.\<close>

definition ignoreFile ::
  "compiler \<Rightarrow> FilenameHeadingSyncPluginSettings \<Rightarrow> CachedMetadata option \<Rightarrow> TFile \<Rightarrow> bool eff"
where
  "ignoreFile compile settings fileCache file =
     (if extension file \<noteq> ''md'' \<and> extension file \<noteq> ''markdown'' then ([], Inr True)
      else case (case fileCache of None \<Rightarrow> None | Some c \<Rightarrow> frontmatter c) of
             Some fm \<Rightarrow>
               (if truthy (fm ''excalidraw-plugin'') then ([], Inr True)
                else if truthy (fm ''kanban-plugin'') then ([], Inr True)
                else ignore_loop compile (fileIgnoreRegexen settings) (path file))
           | None \<Rightarrow> ignore_loop compile (fileIgnoreRegexen settings) (path file))"

section \<open>Definitions used in the statements\<close>

text \<open>The global replacement from index \<open>i\<close> on, the text before \<open>i\<close> being already
  copied: the loops of \<open>collect\<close> and \<open>assemble\<close> taken together.\<close>

definition replace_from :: "RegExp \<Rightarrow> string \<Rightarrow> string \<Rightarrow> nat \<Rightarrow> string" where
  "replace_from r s repl i = assemble s repl i (collect r s i)"

text \<open>
  Removing every match, in the words of the specification: walk the subject from left to
  right; where the pattern matches a non-empty text, drop that text and go on after it;
  elsewhere keep the code unit and go on with the next one.
\<close>

function remove_matches :: "matcher \<Rightarrow> string \<Rightarrow> nat \<Rightarrow> string" where
  "remove_matches m s i =
     (if length s \<le> i then []
      else case m s i of
             None \<Rightarrow> s ! i # remove_matches m s (Suc i)
           | Some n \<Rightarrow> if n = 0 then s ! i # remove_matches m s (Suc i)
                       else remove_matches m s (i + n))"
  by pat_completeness auto
termination
  by (relation "measure (\<lambda>(m, s, i). length s - i)") auto

declare remove_matches.simps [simp del]

text \<open>A dot that is the last code unit of the string is dropped.\<close>

definition drop_final_dot :: "string \<Rightarrow> string" where
  "drop_final_dot s = (if s \<noteq> [] \<and> last s = CHR ''.'' then butlast s else s)"

text \<open>The first code unit in upper case, the rest as it is; and one code unit put in
  place of another throughout a string.\<close>

definition capitalize :: "string \<Rightarrow> string option" where
  "capitalize s = map_option (\<lambda>u. u @ drop 1 s) (toUpperCase (take 1 s))"

definition swap_unit :: "char \<Rightarrow> char \<Rightarrow> string \<Rightarrow> string" where
  "swap_unit a b s = map (\<lambda>c. if c = a then b else c) s"

text \<open>The front matter holds a truthy value under one of the two plugin keys.\<close>

definition marked :: "CachedMetadata option \<Rightarrow> bool" where
  "marked fileCache =
     (\<exists>c fm. fileCache = Some c \<and> frontmatter c = Some fm
            \<and> (truthy (fm ''excalidraw-plugin'') \<or> truthy (fm ''kanban-plugin'')))"

text \<open>
  Data of the examples: the notice that the empty \<open>userIllegalSymbols\<close> of the default
  settings causes at every sanitization, a markdown file of the folder \<open>notes\<close>, and
  settings with a given ignore list.
\<close>

definition empty_setting_notice :: host_call where
  "empty_setting_notice = Notice (''Invalid RegExp string: '' @ [CHR 0x22, CHR 0x22])"

definition note_file :: "string \<Rightarrow> TFile" where
  "note_file b = \<lparr>path = ''notes/'' @ b @ ''.md'', basename = b, extension = ''md'',
                   parent = Some ''notes''\<rparr>"

definition ignoring :: "string list \<Rightarrow> FilenameHeadingSyncPluginSettings" where
  "ignoring xs = \<lparr>userIllegalSymbols = [], fileIgnoreRegexen = xs\<rparr>"

section \<open>Facts about the runtime model\<close>

lemma scan_past_end: "length s < i \<Longrightarrow> scan m s i = None"
  by (simp add: scan.simps)

lemma exec_from_past_end: "length s < i \<Longrightarrow> exec_from r s i = None"
  by (simp add: exec_from_def scan_past_end)

lemma collect_past_end: "length s < i \<Longrightarrow> collect r s i = []"
  by (simp add: collect.simps exec_from_past_end)

lemma collect_head: "collect r s i = (k, n) # rs \<Longrightarrow> i \<le> k"
  using exec_from_bounds [of r s i k n]
  by (auto simp: collect.simps [of r s i] split: option.splits prod.splits)

lemma assemble_skip:
  "i < length s \<Longrightarrow> (\<And>k n rs'. rs = (k, n) # rs' \<Longrightarrow> Suc i \<le> k)
     \<Longrightarrow> assemble s repl i rs = s ! i # assemble s repl (Suc i) rs"
proof (cases rs)
  case Nil
  assume "i < length s"
  with Nil show ?thesis by (simp add: Cons_nth_drop_Suc)
next
  case (Cons a rs')
  assume lt: "i < length s" and hd: "\<And>k n rs'. rs = (k, n) # rs' \<Longrightarrow> Suc i \<le> k"
  obtain k n where a: "a = (k, n)" by (cases a)
  with Cons hd have k: "Suc i \<le> k" by simp
  then have "take (k - i) (drop i s) = s ! i # take (k - Suc i) (drop (Suc i) s)"
    using lt by (metis Cons_nth_drop_Suc Suc_diff_le diff_Suc_Suc take_Suc_Cons)
  with Cons a k show ?thesis by simp
qed

lemma replace_from_None:
  assumes "\<not> sticky r" "i \<le> length s" "matcher r s i = None"
  shows "replace_from r s repl i =
           (if i < length s then s ! i # replace_from r s repl (Suc i) else [])"
proof -
  from assms have e: "exec_from r s i = exec_from r s (Suc i)"
    by (simp add: exec_from_def scan.simps [of "matcher r" s i])
  have c: "collect r s i = collect r s (Suc i)"
    by (simp add: collect.simps [of r s i] collect.simps [of r s "Suc i"] e)
  show ?thesis
  proof (cases "i < length s")
    case True
    have "assemble s repl i (collect r s (Suc i)) = s ! i # assemble s repl (Suc i) (collect r s (Suc i))"
      using True collect_head [of r s "Suc i"] by (intro assemble_skip) auto
    with True c show ?thesis by (simp add: replace_from_def)
  next
    case False
    with assms have "collect r s (Suc i) = []" by (simp add: collect_past_end)
    with False c assms show ?thesis by (simp add: replace_from_def)
  qed
qed

lemma replace_from_Some:
  assumes "\<not> sticky r" "i \<le> length s" "matcher r s i = Some n"
  shows "replace_from r s repl i =
           repl @ (if n = 0 then (if i < length s then s ! i # replace_from r s repl (Suc i) else [])
                   else replace_from r s repl (i + n))"
proof -
  from assms have e: "exec_from r s i = Some (i, n)"
    by (simp add: exec_from_def scan.simps [of "matcher r" s i])
  then have c: "collect r s i = (i, n) # collect r s (if n = 0 then Suc i else i + n)"
    by (simp add: collect.simps [of r s i])
  show ?thesis
  proof (cases "n = 0")
    case False
    with c show ?thesis by (simp add: replace_from_def)
  next
    case True
    show ?thesis
    proof (cases "i < length s")
      case lt: True
      have "assemble s repl i (collect r s (Suc i)) = s ! i # assemble s repl (Suc i) (collect r s (Suc i))"
        using lt collect_head [of r s "Suc i"] by (intro assemble_skip) auto
      with True lt c show ?thesis by (simp add: replace_from_def)
    next
      case False
      with assms have "collect r s (Suc i) = []" by (simp add: collect_past_end)
      with True False c assms show ?thesis by (simp add: replace_from_def)
    qed
  qed
qed

lemma String_replace_global: "global r \<Longrightarrow> String_replace s r repl = replace_from r s repl 0"
  by (simp add: String_replace_def replace_from_def)

lemma drop_final_dot_Cons:
  "drop_final_dot (c # x) =
     (if x = [] then (if c = CHR ''.'' then [] else [c]) else c # drop_final_dot x)"
  by (simp add: drop_final_dot_def)

lemma drop_final_dot_Nil [simp]: "drop_final_dot [] = []"
  by (simp add: drop_final_dot_def)

lemma not_sticky_g [simp]: "\<not> sticky stockIllegalSymbols" "\<not> sticky (unit_pattern c)" "\<not> sticky end_then_start"
  "global stockIllegalSymbols" "global (unit_pattern c)" "global end_then_start"
  by (simp_all add: sticky_def global_def stockIllegalSymbols_def unit_pattern_def end_then_start_def)

lemma dot_legal: "CHR ''.'' \<notin> set illegal_class"
  by (simp add: illegal_class_def)

lemma stock_from:
  "i \<le> length s \<Longrightarrow>
     replace_from stockIllegalSymbols s [] i
       = filter (\<lambda>c. c \<notin> set illegal_class) (drop_final_dot (drop i s))"
proof (induction "length s - i" arbitrary: i)
  case 0
  then have i: "i = length s" by simp
  have "matcher stockIllegalSymbols s i = None" using i by (simp add: stockIllegalSymbols_def)
  then show ?case using i by (simp add: replace_from_None drop_final_dot_def)
next
  case (Suc d)
  then have lt: "i < length s" by simp
  then have dr: "drop i s = s ! i # drop (Suc i) s" by (simp add: Cons_nth_drop_Suc)
  have IH: "replace_from stockIllegalSymbols s [] (Suc i)
       = filter (\<lambda>c. c \<notin> set illegal_class) (drop_final_dot (drop (Suc i) s))"
    using Suc lt by (intro Suc.hyps) auto
  have e: "drop (Suc i) s = [] \<longleftrightarrow> Suc i = length s" using lt by auto
  consider (ill) "s ! i \<in> set illegal_class"
    | (dot) "s ! i \<notin> set illegal_class" "s ! i = CHR ''.''" "Suc i = length s"
    | (keep) "s ! i \<notin> set illegal_class" "\<not> (s ! i = CHR ''.'' \<and> Suc i = length s)"
    by blast
  then show ?case
  proof cases
    case ill
    then have m: "matcher stockIllegalSymbols s i = Some 1"
      using lt by (simp add: stockIllegalSymbols_def)
    have nd: "s ! i \<noteq> CHR ''.''" using ill dot_legal by auto
    show ?thesis
      using lt IH ill nd
      by (simp add: replace_from_Some [OF _ _ m] dr drop_final_dot_Cons drop_final_dot_def)
  next
    case dot
    then have m: "matcher stockIllegalSymbols s i = Some 1"
      using lt by (simp add: stockIllegalSymbols_def)
    show ?thesis
      using lt IH dot e
      by (simp add: replace_from_Some [OF _ _ m] dr drop_final_dot_Cons drop_final_dot_def)
  next
    case keep
    then have m: "matcher stockIllegalSymbols s i = None"
      using lt by (auto simp add: stockIllegalSymbols_def)
    show ?thesis
      using lt IH keep e
      by (auto simp add: replace_from_None [OF _ _ m] dr drop_final_dot_Cons)
  qed
qed

lemma String_replace_stock:
  "String_replace s stockIllegalSymbols []
     = filter (\<lambda>c. c \<notin> set illegal_class) (drop_final_dot s)"
  using stock_from [of 0 s] by (simp add: String_replace_global)

lemma unit_from:
  "i \<le> length s \<Longrightarrow>
     replace_from (unit_pattern c) s [d] i = map (\<lambda>x. if x = c then d else x) (drop i s)"
proof (induction "length s - i" arbitrary: i)
  case 0
  then have i: "i = length s" by simp
  have "matcher (unit_pattern c) s i = None" using i by (simp add: unit_pattern_def)
  then show ?case using i by (simp add: replace_from_None)
next
  case (Suc n)
  then have lt: "i < length s" by simp
  then have dr: "drop i s = s ! i # drop (Suc i) s" by (simp add: Cons_nth_drop_Suc)
  have IH: "replace_from (unit_pattern c) s [d] (Suc i)
              = map (\<lambda>x. if x = c then d else x) (drop (Suc i) s)"
    using Suc lt by (intro Suc.hyps) auto
  show ?case
  proof (cases "s ! i = c")
    case True
    then have m: "matcher (unit_pattern c) s i = Some 1" using lt by (simp add: unit_pattern_def)
    show ?thesis using lt IH True by (simp add: replace_from_Some [OF _ _ m] dr)
  next
    case False
    then have m: "matcher (unit_pattern c) s i = None" using lt by (simp add: unit_pattern_def)
    show ?thesis using lt IH False by (simp add: replace_from_None [OF _ _ m] dr)
  qed
qed

lemma String_replace_unit:
  "String_replace s (unit_pattern c) [d] = map (\<lambda>x. if x = c then d else x) s"
  using unit_from [of 0 s c d] by (simp add: String_replace_global)

lemma sentinel_from:
  "i \<le> length s \<Longrightarrow> replace_from end_then_start s [] i = drop i s"
proof (induction "length s - i" arbitrary: i)
  case 0
  then have i: "i = length s" by simp
  show ?case
  proof (cases "s = []")
    case True
    with i have m: "matcher end_then_start s i = Some 0" by (simp add: end_then_start_def)
    have "replace_from end_then_start s [] i = []"
      using i by (subst replace_from_Some [OF _ _ m]) simp_all
    with i show ?thesis by simp
  next
    case False
    with i have m: "matcher end_then_start s i = None" by (simp add: end_then_start_def)
    have "replace_from end_then_start s [] i = []"
      using i by (subst replace_from_None [OF _ _ m]) simp_all
    with i show ?thesis by simp
  qed
next
  case (Suc n)
  then have lt: "i < length s" by simp
  then have dr: "drop i s = s ! i # drop (Suc i) s" by (simp add: Cons_nth_drop_Suc)
  have IH: "replace_from end_then_start s [] (Suc i) = drop (Suc i) s"
    using Suc lt by (intro Suc.hyps) auto
  have m: "matcher end_then_start s i = None" using lt by (simp add: end_then_start_def)
  show ?case using lt IH by (simp add: replace_from_None [OF _ _ m] dr)
qed

lemma String_replace_sentinel: "String_replace s end_then_start [] = s"
  using sentinel_from [of 0 s] by (simp add: String_replace_global)

lemma set_assemble: "set (assemble s [] np rs) \<subseteq> set s"
proof (induction rs arbitrary: np)
  case Nil
  show ?case by (simp add: set_drop_subset)
next
  case (Cons a rs)
  obtain k n where a: "a = (k, n)" by (cases a)
  have "set (take (k - np) (drop np s)) \<subseteq> set s"
    by (meson set_take_subset set_drop_subset subset_trans)
  with Cons a show ?case by auto
qed

lemma set_String_replace: "set (String_replace s r []) \<subseteq> set s"
  by (simp add: String_replace_def set_assemble)

lemma trim_subset: "set (trim s) \<subseteq> set s"
  unfolding trim_def
  by (metis set_rev set_dropWhileD subsetI)

lemma trim_fixed:
  assumes "z = [] \<or> \<not> white_space (hd z)" "z = [] \<or> \<not> white_space (last z)"
  shows "trim z = z"
proof (cases "z = []")
  case True
  then show ?thesis by (simp add: trim_def)
next
  case False
  with assms have h: "\<not> white_space (hd z)" and l: "\<not> white_space (last z)" by auto
  from h False have 1: "dropWhile white_space z = z" by (cases z) auto
  from l False have "\<not> white_space (hd (rev z))" by (simp add: hd_rev)
  with False have 2: "dropWhile white_space (rev z) = rev z" by (cases "rev z") auto
  show ?thesis by (simp add: trim_def 1 2)
qed

lemma trim_ends:
  "(trim s = [] \<or> \<not> white_space (hd (trim s))) \<and> (trim s = [] \<or> \<not> white_space (last (trim s)))"
proof -
  let ?y = "dropWhile white_space s"
  let ?w = "dropWhile white_space (rev ?y)"
  have t: "trim s = rev ?w" by (simp add: trim_def)
  have l: "?w = [] \<or> \<not> white_space (hd ?w)" using hd_dropWhile by blast
  have y: "?y = [] \<or> \<not> white_space (hd ?y)" using hd_dropWhile by blast
  have "rev ?y = takeWhile white_space (rev ?y) @ ?w" by simp
  then have "?y = rev ?w @ rev (takeWhile white_space (rev ?y))"
    by (metis rev_append rev_rev_ident)
  then have "rev ?w \<noteq> [] \<Longrightarrow> hd (rev ?w) = hd ?y" by (metis hd_append2)
  with y have h: "rev ?w = [] \<or> \<not> white_space (hd (rev ?w))"
    by (metis \<open>?y = rev ?w @ rev (takeWhile white_space (rev ?y))\<close> append_is_Nil_conv)
  from l have "rev ?w = [] \<or> \<not> white_space (last (rev ?w))" by (simp add: last_rev)
  with h t show ?thesis by simp
qed

lemma trim_trim: "trim (trim s) = trim s"
  using trim_ends [of s] by (intro trim_fixed) auto

lemma replace_from_past_end: "length s < i \<Longrightarrow> replace_from r s repl i = []"
  by (simp add: replace_from_def collect_past_end)

lemma remove_matches_end: "length s \<le> i \<Longrightarrow> remove_matches m s i = []"
  by (simp add: remove_matches.simps)

lemma replace_from_remove:
  "\<not> sticky r \<Longrightarrow> replace_from r s [] i = remove_matches (matcher r) s i"
proof (induction "matcher r" s i rule: remove_matches.induct)
  case (1 s i)
  show ?case
  proof (cases "length s < i")
    case True
    then show ?thesis by (simp add: replace_from_past_end remove_matches.simps [of _ s i])
  next
    case False
    then have le: "i \<le> length s" by simp
    show ?thesis
    proof (cases "matcher r s i")
      case None
      show ?thesis
      proof (cases "i < length s")
        case True
        with None "1.hyps"(1) "1.prems" have "replace_from r s [] (Suc i) = remove_matches (matcher r) s (Suc i)"
          by simp
        with True None "1.prems" le show ?thesis
          by (simp add: replace_from_None remove_matches.simps [of _ s i])
      next
        case False
        with None "1.prems" le show ?thesis
          by (simp add: replace_from_None remove_matches_end)
      qed
    next
      case (Some n)
      show ?thesis
      proof (cases "i < length s")
        case True
        show ?thesis
        proof (cases "n = 0")
          case z: True
          with True Some "1.hyps"(2) "1.prems" have "replace_from r s [] (Suc i) = remove_matches (matcher r) s (Suc i)"
            by simp
          with True Some z "1.prems" le show ?thesis
            by (simp add: replace_from_Some remove_matches.simps [of _ s i])
        next
          case nz: False
          with True Some "1.hyps"(3) "1.prems" have "replace_from r s [] (i + n) = remove_matches (matcher r) s (i + n)"
            by simp
          with True Some nz "1.prems" le show ?thesis
            by (simp add: replace_from_Some remove_matches.simps [of _ s i])
        qed
      next
        case False
        with le have i: "i = length s" by simp
        have "replace_from r s [] (i + n) = []" if "n \<noteq> 0"
          using that i by (simp add: replace_from_past_end)
        with Some "1.prems" le i show ?thesis
          by (simp add: replace_from_Some remove_matches_end)
      qed
    qed
  qed
qed

lemma String_replace_first:
  "\<not> global r \<Longrightarrow>
     String_replace x r [] = (case exec_from r x 0 of None \<Rightarrow> x | Some (k, n) \<Rightarrow> take k x @ drop (k + n) x)"
  by (simp add: String_replace_def split: option.splits)

lemma sentinel_scan: "s \<noteq> [] \<Longrightarrow> scan (matcher end_then_start) s i = None"
proof (induction "Suc (length s) - i" arbitrary: i)
  case 0
  then show ?case by (simp add: scan.simps)
next
  case (Suc n)
  have m: "matcher end_then_start s i = None" using Suc.prems by (auto simp: end_then_start_def)
  have "scan (matcher end_then_start) s (Suc i) = None" using Suc by (intro Suc.hyps) auto
  with m show ?case by (simp add: scan.simps [of _ s i])
qed

lemma sentinel_no_match: "x \<noteq> [] \<Longrightarrow> RegExp_exec end_then_start x = None"
  by (simp add: RegExp_exec_def exec_from_def sentinel_scan)

lemma empty_pattern_exec: "RegExp_exec \<lparr>matcher = empty_pattern, flags = ''g''\<rparr> p = Some (0, 0)"
  by (simp add: RegExp_exec_def exec_from_def sticky_def scan.simps [of _ p 0] empty_pattern_def)

section \<open>Facts about the plugin\<close>

subsection \<open>Lines and the heading locator\<close>

lemma split_not_Nil [simp]: "split s \<noteq> []"
  by (induction s) (auto split: list.splits)

lemma split_no_newline: "l \<in> set (split s) \<Longrightarrow> CHR 0x0A \<notin> set l"
proof (induction s arbitrary: l)
  case Nil
  then show ?case by simp
next
  case (Cons c s)
  then show ?case by (cases "split s") (auto split: if_splits)
qed

lemma split_append_line:
  "CHR 0x0A \<notin> set l \<Longrightarrow> split (l @ CHR 0x0A # s) = l # split s"
  by (induction l) auto

lemma split_single: "CHR 0x0A \<notin> set l \<Longrightarrow> split l = [l]"
  by (induction l) auto

lemma split_join:
  "ls \<noteq> [] \<Longrightarrow> (\<forall>l \<in> set ls. CHR 0x0A \<notin> set l) \<Longrightarrow> split (join ls) = ls"
proof (induction ls rule: join.induct)
  case 1
  then show ?case by simp
next
  case (2 l)
  then show ?case by (simp add: split_single)
next
  case (3 l v va)
  then show ?case by (simp add: split_append_line)
qed

lemma indexOf_found:
  "i \<le> j \<Longrightarrow> j < length xs \<Longrightarrow> xs ! j = x \<Longrightarrow> (\<forall>k. i \<le> k \<and> k < j \<longrightarrow> xs ! k \<noteq> x)
     \<Longrightarrow> indexOf xs x i = int j"
proof (induction xs x i rule: indexOf.induct)
  case (1 xs x i)
  show ?case
  proof (cases "i = j")
    case True
    with "1.prems" show ?thesis by (subst indexOf.simps) simp
  next
    case False
    with "1.prems" have a: "i < length xs" "xs ! i \<noteq> x" "Suc i \<le> j" by auto
    with "1.prems" have "indexOf xs x (Suc i) = int j" by (intro "1.IH") auto
    with a show ?thesis by (simp add: indexOf.simps [of xs x i])
  qed
qed

lemma indexOf_none:
  "(\<forall>k. i \<le> k \<and> k < length xs \<longrightarrow> xs ! k \<noteq> x) \<Longrightarrow> indexOf xs x i = -1"
proof (induction xs x i rule: indexOf.induct)
  case (1 xs x i)
  show ?case
  proof (cases "i < length xs")
    case True
    with "1.prems" have a: "xs ! i \<noteq> x" by auto
    with True "1.prems" have "indexOf xs x (Suc i) = -1" by (intro "1.IH") auto
    with True a show ?thesis by (simp add: indexOf.simps [of xs x i])
  next
    case False
    then show ?thesis by (simp add: indexOf.simps [of xs x i])
  qed
qed

lemma heading_loop_found:
  "i \<le> j \<Longrightarrow> j < length ls \<Longrightarrow> startsWith (ls ! j) ''# ''
     \<Longrightarrow> (\<forall>k. i \<le> k \<and> k < j \<longrightarrow> \<not> startsWith (ls ! k) ''# '')
     \<Longrightarrow> heading_loop ls i = int j"
proof (induction ls i rule: heading_loop.induct)
  case (1 ls i)
  show ?case
  proof (cases "i = j")
    case True
    with "1.prems" show ?thesis by (subst heading_loop.simps) simp
  next
    case False
    with "1.prems" have a: "i < length ls" "\<not> startsWith (ls ! i) ''# ''" "Suc i \<le> j" by auto
    with "1.prems" have "heading_loop ls (Suc i) = int j" by (intro "1.IH") auto
    with a show ?thesis by (simp add: heading_loop.simps [of ls i])
  qed
qed

lemma heading_loop_none:
  "(\<forall>k. i \<le> k \<and> k < length ls \<longrightarrow> \<not> startsWith (ls ! k) ''# '') \<Longrightarrow> heading_loop ls i = -1"
proof (induction ls i rule: heading_loop.induct)
  case (1 ls i)
  show ?case
  proof (cases "i < length ls")
    case True
    with "1.prems" have a: "\<not> startsWith (ls ! i) ''# ''" by auto
    with True "1.prems" have "heading_loop ls (Suc i) = -1" by (intro "1.IH") auto
    with True a show ?thesis by (simp add: heading_loop.simps [of ls i])
  next
    case False
    then show ?thesis by (simp add: heading_loop.simps [of ls i])
  qed
qed

lemma heading_loop_result:
  "heading_loop ls i = -1 \<or>
   (\<exists>j. heading_loop ls i = int j \<and> i \<le> j \<and> j < length ls \<and> startsWith (ls ! j) ''# ''
        \<and> (\<forall>k. i \<le> k \<and> k < j \<longrightarrow> \<not> startsWith (ls ! k) ''# ''))"
proof (induction ls i rule: heading_loop.induct)
  case (1 ls i)
  show ?case
  proof (cases "i < length ls \<and> \<not> startsWith (ls ! i) ''# ''")
    case True
    then have eq: "heading_loop ls i = heading_loop ls (Suc i)"
      by (simp add: heading_loop.simps [of ls i])
    from True "1.IH" have "heading_loop ls (Suc i) = -1 \<or>
      (\<exists>j. heading_loop ls (Suc i) = int j \<and> Suc i \<le> j \<and> j < length ls \<and> startsWith (ls ! j) ''# ''
        \<and> (\<forall>k. Suc i \<le> k \<and> k < j \<longrightarrow> \<not> startsWith (ls ! k) ''# ''))" by simp
    then show ?thesis
    proof
      assume "heading_loop ls (Suc i) = -1"
      with eq show ?thesis by simp
    next
      assume "\<exists>j. heading_loop ls (Suc i) = int j \<and> Suc i \<le> j \<and> j < length ls \<and> startsWith (ls ! j) ''# ''
        \<and> (\<forall>k. Suc i \<le> k \<and> k < j \<longrightarrow> \<not> startsWith (ls ! k) ''# '')"
      then obtain j where j: "heading_loop ls (Suc i) = int j" "Suc i \<le> j" "j < length ls"
        "startsWith (ls ! j) ''# ''" "\<forall>k. Suc i \<le> k \<and> k < j \<longrightarrow> \<not> startsWith (ls ! k) ''# ''"
        by blast
      have "\<forall>k. i \<le> k \<and> k < j \<longrightarrow> \<not> startsWith (ls ! k) ''# ''"
      proof (intro allI impI)
        fix k assume "i \<le> k \<and> k < j"
        then have "k = i \<or> (Suc i \<le> k \<and> k < j)" by auto
        with True j(5) show "\<not> startsWith (ls ! k) ''# ''" by auto
      qed
      with j eq show ?thesis by (intro disjI2 exI [of _ j]) auto
    qed
  next
    case False
    then show ?thesis by (auto simp add: heading_loop.simps [of ls i])
  qed
qed

lemma getStartLine_nonneg: "0 \<le> getStartLine ls"
proof -
  have "\<And>i. -1 \<le> indexOf ls ''---'' i"
  proof -
    fix i show "-1 \<le> indexOf ls ''---'' i"
      by (induction ls "''---''" i rule: indexOf.induct) (simp add: indexOf.simps)
  qed
  from this [of 1] have "0 \<le> indexOf ls ''---'' 1 + 1" by arith
  then show ?thesis by (auto simp: getStartLine_def split: list.splits)
qed

lemma small_range: "(\<forall>k::nat. a \<le> k \<and> k < b \<longrightarrow> P k) \<longleftrightarrow> list_all P [a..<b]"
  by (auto simp: list_all_iff)

lemma indexOf_cong:
  "length xs = length ys \<Longrightarrow> (\<forall>k < length xs. (xs ! k = x) = (ys ! k = x))
     \<Longrightarrow> indexOf xs x i = indexOf ys x i"
proof (induction "length xs - i" arbitrary: i)
  case 0
  then show ?case by (simp add: indexOf.simps [of xs x i] indexOf.simps [of ys x i])
next
  case (Suc n)
  then have "indexOf xs x (Suc i) = indexOf ys x (Suc i)" by (intro Suc.hyps) auto
  with Suc.prems Suc.hyps(2) show ?case
    by (simp add: indexOf.simps [of xs x i] indexOf.simps [of ys x i])
qed

lemma heading_loop_cong:
  "length xs = length ys \<Longrightarrow> (\<forall>k < length xs. startsWith (xs ! k) ''# '' = startsWith (ys ! k) ''# '')
     \<Longrightarrow> heading_loop xs i = heading_loop ys i"
proof (induction "length xs - i" arbitrary: i)
  case 0
  then show ?case by (simp add: heading_loop.simps [of xs i] heading_loop.simps [of ys i])
next
  case (Suc n)
  then have "heading_loop xs (Suc i) = heading_loop ys (Suc i)" by (intro Suc.hyps) auto
  with Suc.prems Suc.hyps(2) show ?case
    by (simp add: heading_loop.simps [of xs i] heading_loop.simps [of ys i])
qed

lemma startsWith_marker [simp]: "startsWith (CHR ''#'' # CHR '' '' # h) ''# ''"
  by (simp add: startsWith_def)

lemma startsWith_not_delimiter: "startsWith l ''# '' \<Longrightarrow> l \<noteq> ''---''"
  by (auto simp: startsWith_def)

lemma startsWith_decompose: "startsWith l ''# '' \<Longrightarrow> l = ''# '' @ drop 2 l"
  unfolding startsWith_def
  by (metis append_take_drop_id length_Cons list.size(3) numeral_2_eq_2)

lemma getHeadingLine_result:
  "getHeadingLine ls = -1 \<or>
   (\<exists>j. getHeadingLine ls = int j \<and> j < length ls \<and> startsWith (ls ! j) ''# '')"
  using heading_loop_result [of ls "nat (getStartLine ls)"] by (auto simp: getHeadingLine_def)

lemma getHeadingLine_update:
  assumes "k < length ls" "startsWith (ls ! k) ''# ''" "startsWith h ''# ''"
  shows "getHeadingLine (ls[k := h]) = getHeadingLine ls"
proof -
  let ?ls' = "ls[k := h]"
  have len: "length ?ls' = length ls" by simp
  have d: "\<forall>i < length ?ls'. (?ls' ! i = ''---'') = (ls ! i = ''---'')"
    using assms startsWith_not_delimiter by (auto simp: nth_list_update)
  have p: "\<forall>i < length ?ls'. startsWith (?ls' ! i) ''# '' = startsWith (ls ! i) ''# ''"
    using assms by (auto simp: nth_list_update)
  have io: "indexOf ?ls' ''---'' 1 = indexOf ls ''---'' 1"
    using len d by (intro indexOf_cong) auto
  have "ls \<noteq> []" using assms by auto
  then obtain a as where ls: "ls = a # as" by (cases ls) auto
  have hd: "(hd ?ls' = ''---'') = (hd ls = ''---'')"
    using d ls by (cases k) auto
  have st: "getStartLine ?ls' = getStartLine ls"
    using io hd ls by (cases k) (auto simp: getStartLine_def)
  have "heading_loop ?ls' (nat (getStartLine ls)) = heading_loop ls (nat (getStartLine ls))"
    using len p by (intro heading_loop_cong) auto
  with st show ?thesis by (simp add: getHeadingLine_def)
qed

lemma getHeadingLine_insert:
  "startsWith h ''# '' \<Longrightarrow> getHeadingLine (h # ls) = 0"
proof -
  assume a: "startsWith h ''# ''"
  then have "getStartLine (h # ls) = 0"
    using startsWith_not_delimiter by (auto simp: getStartLine_def)
  with a show ?thesis by (simp add: getHeadingLine_def heading_loop.simps [of "h # ls" 0])
qed

subsection \<open>The deserializer\<close>

lemma deserialize_notice_only:
  "c \<in> set (fst (deserializeRegExp compile x)) \<Longrightarrow> \<exists>m. c = Notice m"
  by (auto simp: deserializeRegExp_def split: option.splits prod.splits)

lemma deserialize_error: "snd (deserializeRegExp compile x) = Inl e \<Longrightarrow> e = SyntaxError"
  by (auto simp: deserializeRegExp_def RegExp_new_def Let_def split: option.splits prod.splits if_splits)

lemma slash_not_terminator: "\<not> line_terminator CHR ''/''"
  by (simp add: line_terminator_def)

lemma lower_az_plain: "lower_az c \<Longrightarrow> \<not> line_terminator c \<and> c \<noteq> CHR ''/''"
  by (auto simp: lower_az_def line_terminator_def)

lemma slash_on_line_iff:
  "CHR ''/'' \<in> set (takeWhile (\<lambda>c. \<not> line_terminator c) cs)
     \<longleftrightarrow> (\<exists>b c. cs = b @ CHR ''/'' # c \<and> list_all (\<lambda>x. \<not> line_terminator x) b)"
proof
  assume "CHR ''/'' \<in> set (takeWhile (\<lambda>c. \<not> line_terminator c) cs)"
  then obtain b b2 where tw: "takeWhile (\<lambda>c. \<not> line_terminator c) cs = b @ CHR ''/'' # b2"
    by (meson split_list)
  have "cs = takeWhile (\<lambda>c. \<not> line_terminator c) cs @ dropWhile (\<lambda>c. \<not> line_terminator c) cs"
    by simp
  with tw have 1: "cs = b @ CHR ''/'' # (b2 @ dropWhile (\<lambda>c. \<not> line_terminator c) cs)" by simp
  have "\<forall>x \<in> set (takeWhile (\<lambda>c. \<not> line_terminator c) cs). \<not> line_terminator x"
    by (auto dest: set_takeWhileD)
  with tw have "list_all (\<lambda>x. \<not> line_terminator x) b" by (simp add: list_all_iff)
  with 1 show "\<exists>b c. cs = b @ CHR ''/'' # c \<and> list_all (\<lambda>x. \<not> line_terminator x) b" by blast
next
  assume "\<exists>b c. cs = b @ CHR ''/'' # c \<and> list_all (\<lambda>x. \<not> line_terminator x) b"
  then obtain b c where cs: "cs = b @ CHR ''/'' # c" and b: "list_all (\<lambda>x. \<not> line_terminator x) b"
    by blast
  from b have "takeWhile (\<lambda>c. \<not> line_terminator c) cs
                 = b @ takeWhile (\<lambda>c. \<not> line_terminator c) (CHR ''/'' # c)"
    unfolding cs by (intro takeWhile_append2) (simp add: list_all_iff)
  then show "CHR ''/'' \<in> set (takeWhile (\<lambda>c. \<not> line_terminator c) cs)"
    by (simp add: slash_not_terminator)
qed

lemma match_after_slash_None:
  "match_after_slash cs = None \<longleftrightarrow> CHR ''/'' \<notin> set (takeWhile (\<lambda>c. \<not> line_terminator c) cs)"
  by (simp add: match_after_slash_def Let_def)

lemma match_serialized_None:
  "match_serialized s = None
     \<longleftrightarrow> \<not> (\<exists>a b c. s = a @ ''/'' @ b @ ''/'' @ c \<and> list_all (\<lambda>x. \<not> line_terminator x) b)"
proof (induction s)
  case Nil
  then show ?case by simp
next
  case (Cons x s)
  let ?two = "\<lambda>s. \<exists>a b c. s = a @ ''/'' @ b @ ''/'' @ c \<and> list_all (\<lambda>x. \<not> line_terminator x) b"
  have here: "(\<exists>b c. x # s = [] @ ''/'' @ b @ ''/'' @ c \<and> list_all (\<lambda>x. \<not> line_terminator x) b)
                \<longleftrightarrow> x = CHR ''/'' \<and> match_after_slash s \<noteq> None"
    by (auto simp: match_after_slash_None slash_on_line_iff)
  have later: "(\<exists>a' b c. x # s = (x # a') @ ''/'' @ b @ ''/'' @ c \<and> list_all (\<lambda>x. \<not> line_terminator x) b)
                \<longleftrightarrow> ?two s"
    by auto
  have "?two (x # s) \<longleftrightarrow> (x = CHR ''/'' \<and> match_after_slash s \<noteq> None) \<or> ?two s"
  proof
    assume "?two (x # s)"
    then obtain a b c where d: "x # s = a @ ''/'' @ b @ ''/'' @ c" "list_all (\<lambda>x. \<not> line_terminator x) b"
      by blast
    show "(x = CHR ''/'' \<and> match_after_slash s \<noteq> None) \<or> ?two s"
    proof (cases a)
      case Nil
      with d here show ?thesis by blast
    next
      case (Cons y a')
      with d have "x # s = (x # a') @ ''/'' @ b @ ''/'' @ c" by simp
      with d(2) later show ?thesis by blast
    qed
  next
    assume "(x = CHR ''/'' \<and> match_after_slash s \<noteq> None) \<or> ?two s"
    then show "?two (x # s)"
    proof
      assume "x = CHR ''/'' \<and> match_after_slash s \<noteq> None"
      with here show ?thesis by blast
    next
      assume "?two s"
      with later show ?thesis by blast
    qed
  qed
  with Cons show ?case by (auto split: option.splits)
qed

lemma match_serialized_literal:
  assumes "list_all (\<lambda>c. \<not> line_terminator c) p" and "list_all lower_az fl"
  shows "match_serialized (''/'' @ p @ ''/'' @ fl) = Some (if p = [] then None else Some p, fl)"
proof -
  let ?rest = "p @ CHR ''/'' # fl"
  have fl: "\<forall>c \<in> set fl. \<not> line_terminator c \<and> c \<noteq> CHR ''/''"
    using assms(2) lower_az_plain by (auto simp: list_all_iff)
  have "\<forall>c \<in> set ?rest. \<not> line_terminator c"
    using assms(1) fl by (auto simp: list_all_iff slash_not_terminator)
  then have line: "takeWhile (\<lambda>c. \<not> line_terminator c) ?rest = ?rest"
    by (simp only: takeWhile_eq_all_conv)
  have "takeWhile (\<lambda>c. c \<noteq> CHR ''/'') (rev ?rest) = rev fl"
    using fl by (simp add: takeWhile_tail)
  then have k: "length ?rest - Suc (length (takeWhile (\<lambda>c. c \<noteq> CHR ''/'') (rev ?rest))) = length p"
    by simp
  have g2: "takeWhile lower_az fl = fl" using assms(2) by (simp add: list_all_iff)
  have "match_after_slash ?rest = Some (if p = [] then None else Some p, fl)"
    unfolding match_after_slash_def Let_def line k by (simp add: g2)
  then show ?thesis by simp
qed

lemma RegExp_new_empty: "RegExp_new compile None fl = RegExp_new compile (Some []) fl"
  by (simp add: RegExp_new_def)

lemma deserialize_empty_pattern:
  "deserializeRegExp compile ''//g'' = ([], Inr \<lparr>matcher = empty_pattern, flags = ''g''\<rparr>)"
proof -
  have "match_serialized (''/'' @ [] @ ''/'' @ ''g'') = Some (if [] = ([]::string) then None else Some [], ''g'')"
    by (intro match_serialized_literal) (simp_all add: lower_az_def)
  then have "match_serialized ''//g'' = Some (None, ''g'')" by simp
  then show ?thesis by (simp add: deserializeRegExp_def RegExp_new_def valid_flags_def)
qed

lemma deserialize_empty:
  "deserializeRegExp compile [] = ([Notice (''Invalid RegExp string: '' @ [CHR 0x22, CHR 0x22])], Inr end_then_start)"
  by (simp add: deserializeRegExp_def)

subsection \<open>The sanitizer\<close>

lemma sanitizeHeading_fst:
  "fst (sanitizeHeading compile settings s) = fst (deserializeRegExp compile (userIllegalSymbols settings))"
  by (auto simp: sanitizeHeading_def Let_def split: prod.splits sum.splits)

lemma sanitizeHeading_error: "snd (sanitizeHeading compile settings s) = Inl e \<Longrightarrow> e = SyntaxError"
  using deserialize_error [of compile "userIllegalSymbols settings" e]
  by (auto simp: sanitizeHeading_def Let_def split: prod.splits sum.splits)

lemma sanitizeHeading_notice_only:
  "c \<in> set (fst (sanitizeHeading compile settings s)) \<Longrightarrow> \<exists>m. c = Notice m"
  by (simp add: sanitizeHeading_fst deserialize_notice_only)

lemma sanitizeHeading_eq:
  "sanitizeHeading compile settings s =
     (case deserializeRegExp compile (userIllegalSymbols settings) of
        (ns, Inl e) \<Rightarrow> (ns, Inl e)
      | (ns, Inr r) \<Rightarrow>
          (ns, Inr (trim (String_replace
                            (filter (\<lambda>c. c \<notin> set illegal_class) (drop_final_dot s)) r []))))"
  by (simp add: sanitizeHeading_def String_replace_stock)

lemma sanitizeHeading_default:
  "userIllegalSymbols settings = [] \<Longrightarrow>
     snd (sanitizeHeading compile settings s)
       = Inr (trim (filter (\<lambda>c. c \<notin> set illegal_class) (drop_final_dot s)))"
  by (simp add: sanitizeHeading_eq deserialize_empty String_replace_sentinel)

lemma trim_leading_space: "trim (CHR '' '' # x) = trim x"
  by (simp add: trim_def white_space_def)

lemma stock_of_heading_line:
  "trim (filter (\<lambda>c. c \<notin> set illegal_class) (drop_final_dot (''# '' @ h)))
     = trim (filter (\<lambda>c. c \<notin> set illegal_class) (drop_final_dot h))"
proof -
  have "drop_final_dot (''# '' @ h) = ''# '' @ drop_final_dot h"
    by (cases "h = []") (auto simp: drop_final_dot_def)
  then show ?thesis by (simp add: illegal_class_def trim_leading_space)
qed

lemma lower_unit_space: "lower_unit c = CHR '' '' \<longleftrightarrow> c = CHR '' ''"
  by (auto simp: lower_unit_def upper_letters_def lower_letters_def split: if_splits)

lemma lower_unit_hyphen: "lower_unit CHR ''-'' = CHR ''-''"
  by (simp add: lower_unit_def upper_letters_def lower_letters_def)

lemma toLowerCase_swap:
  "toLowerCase (swap_unit CHR '' '' CHR ''-'' s) = swap_unit CHR '' '' CHR ''-'' (toLowerCase s)"
  by (induction s) (auto simp: toLowerCase_def swap_unit_def lower_unit_space lower_unit_hyphen)

lemma sanitized_is_fixed_by_stock:
  assumes "sanitizeHeading compile settings s = (ns, Inr t)" and "t = [] \<or> last t \<noteq> CHR ''.''"
  shows "filter (\<lambda>c. c \<notin> set illegal_class) (drop_final_dot t) = t"
proof -
  obtain r where t: "t = trim (String_replace (filter (\<lambda>c. c \<notin> set illegal_class) (drop_final_dot s)) r [])"
    using assms(1) by (auto simp: sanitizeHeading_eq split: prod.splits sum.splits)
  have "set t \<subseteq> set (filter (\<lambda>c. c \<notin> set illegal_class) (drop_final_dot s))"
    unfolding t using trim_subset set_String_replace by (rule subset_trans)
  then have "\<forall>c \<in> set t. c \<notin> set illegal_class" by auto
  then have "filter (\<lambda>c. c \<notin> set illegal_class) t = t" by (simp add: filter_id_conv)
  moreover have "drop_final_dot t = t" using assms(2) by (auto simp: drop_final_dot_def)
  ultimately show ?thesis by simp
qed

subsection \<open>The sync engine and the ignore filter\<close>

lemma String_replace_swap: "String_replace s (unit_pattern a) [b] = swap_unit a b s"
  by (simp add: String_replace_unit swap_unit_def)

lemma toUpperCase_unit: "toUpperCase [c] = upper_unit c"
  by (cases "upper_unit c") (simp_all add: toUpperCase_def)

lemma capitalize_Cons: "capitalize (c # cs) = map_option (\<lambda>u. u @ cs) (upper_unit c)"
  by (simp add: capitalize_def toUpperCase_unit)

lemma capitalize_defined:
  "capitalize (c # cs) = None \<longleftrightarrow> c = CHR 0xB5 \<or> c = CHR 0xFF"
  by (auto simp: capitalize_Cons upper_unit_def split: option.splits)

lemma upper_unit_newline: "upper_unit c = Some u \<Longrightarrow> CHR 0x0A \<in> set u \<Longrightarrow> c = CHR 0x0A"
  by (auto simp: upper_unit_def lower_letters_def upper_letters_def split: if_splits)

lemma handleSyncFilenameToHeading_eq:
  assumes "sanitizeHeading compile settings (basename f) = (ns, Inr t)"
  shows "handleSyncFilenameToHeading compile settings vault f =
     (if t = [] then (ns, Inl TypeError)
      else case capitalize (swap_unit CHR ''-'' CHR '' '' t) of
             None \<Rightarrow> (ns, Inl OutsideLatin1)
           | Some cap \<Rightarrow>
               (case vault (path f) of
                  None \<Rightarrow> (ns, Inl ReadRejected)
                | Some data \<Rightarrow>
                    (ns @ [VaultModify (path f)
                             (join (if getHeadingLine (split data) \<noteq> -1
                                    then (split data)[nat (getHeadingLine (split data)) := ''# '' @ cap]
                                    else (''# '' @ cap) # split data))],
                     Inr ())))"
proof (cases t)
  case Nil
  with assms show ?thesis
    by (simp add: handleSyncFilenameToHeading_def String_replace_swap swap_unit_def)
next
  case (Cons c cs)
  have r: "String_replace t (unit_pattern CHR ''-'') '' '' = swap_unit CHR ''-'' CHR '' '' t"
    by (rule String_replace_swap)
  obtain c' cs' where m: "swap_unit CHR ''-'' CHR '' '' t = c' # cs'"
    using Cons by (auto simp: swap_unit_def)
  have c: "capitalize (c' # cs') = map_option (\<lambda>u. u @ cs') (toUpperCase [c'])"
    by (simp add: capitalize_def)
  show ?thesis
  proof (cases "toUpperCase [c']")
    case None
    with assms Cons r m c show ?thesis
      by (simp add: handleSyncFilenameToHeading_def)
  next
    case (Some u)
    with assms Cons r m c show ?thesis
      by (simp add: handleSyncFilenameToHeading_def Let_def split: option.splits)
  qed
qed

lemma handleSyncFilenameToHeading_calls:
  "c \<in> set (fst (handleSyncFilenameToHeading compile settings vault f))
     \<Longrightarrow> (\<exists>m. c = Notice m) \<or> (\<exists>p d. c = VaultModify p d)"
proof (cases "sanitizeHeading compile settings (basename f)")
  case (Pair ns res)
  assume c: "c \<in> set (fst (handleSyncFilenameToHeading compile settings vault f))"
  have n: "\<And>x. x \<in> set ns \<Longrightarrow> \<exists>m. x = Notice m"
    using Pair sanitizeHeading_notice_only [of _ compile settings "basename f"] by simp
  show ?thesis
  proof (cases res)
    case (Inl e)
    with Pair c n show ?thesis by (auto simp: handleSyncFilenameToHeading_def)
  next
    case (Inr t)
    with Pair have "sanitizeHeading compile settings (basename f) = (ns, Inr t)" by simp
    from handleSyncFilenameToHeading_eq [OF this] c n show ?thesis
      by (auto split: if_splits option.splits)
  qed
qed

lemma missing_heading_falls_back:
  assumes "vault (path f) = Some data" "getHeadingLine (split data) = -1"
  shows "handleSyncHeadingToFilename compile settings vault f
           = handleSyncFilenameToHeading compile settings vault f
         \<and> (\<forall>p q. RenameFile p q \<notin> set (fst (handleSyncHeadingToFilename compile settings vault f)))"
proof -
  have eq: "handleSyncHeadingToFilename compile settings vault f
           = handleSyncFilenameToHeading compile settings vault f"
    using assms by (simp add: handleSyncHeadingToFilename_def)
  have "\<forall>p q. RenameFile p q \<notin> set (fst (handleSyncFilenameToHeading compile settings vault f))"
    using handleSyncFilenameToHeading_calls by fastforce
  with eq show ?thesis by simp
qed

lemma missing_heading_recreates_heading:
  assumes "vault (path f) = Some data" and "getHeadingLine (split data) = -1"
    and "sanitizeHeading compile settings (basename f) = (ns, Inr t)" and "t \<noteq> []"
    and "capitalize (swap_unit CHR ''-'' CHR '' '' t) = Some cap"
  shows "handleSyncHeadingToFilename compile settings vault f
           = (ns @ [VaultModify (path f) (join ((''# '' @ cap) # split data))], Inr ())"
  using assms handleSyncFilenameToHeading_eq [OF assms(3), of vault]
  by (simp add: handleSyncHeadingToFilename_def)

lemma filename_to_heading_writes:
  assumes "sanitizeHeading compile settings (basename f) = (ns, Inr t)" and "t \<noteq> []"
    and "capitalize (swap_unit CHR ''-'' CHR '' '' t) = Some cap"
    and "vault (path f) = Some data"
  shows "\<exists>lines'.
     handleSyncFilenameToHeading compile settings vault f
       = (ns @ [VaultModify (path f) (join lines')], Inr ())
     \<and> (getHeadingLine (split data) \<noteq> -1 \<longrightarrow>
          length lines' = length (split data)
          \<and> nat (getHeadingLine (split data)) < length (split data)
          \<and> lines' ! nat (getHeadingLine (split data)) = ''# '' @ cap
          \<and> (\<forall>i. i < length (split data) \<and> i \<noteq> nat (getHeadingLine (split data))
                 \<longrightarrow> lines' ! i = split data ! i)
          \<and> getHeadingLine lines' = getHeadingLine (split data))
     \<and> (getHeadingLine (split data) = -1 \<longrightarrow>
          lines' = (''# '' @ cap) # split data \<and> getHeadingLine lines' = 0)
     \<and> (CHR 0x0A \<notin> set t \<longrightarrow> split (join lines') = lines')"
proof -
  let ?ls = "split data"
  let ?k = "getHeadingLine ?ls"
  let ?h = "''# '' @ cap"
  let ?ls' = "if ?k \<noteq> -1 then ?ls[nat ?k := ?h] else ?h # ?ls"
  have run: "handleSyncFilenameToHeading compile settings vault f
       = (ns @ [VaultModify (path f) (join ?ls')], Inr ())"
    using handleSyncFilenameToHeading_eq [OF assms(1), of vault] assms(2,3,4) by simp
  have found: "?k \<noteq> -1 \<Longrightarrow> nat ?k < length ?ls \<and> startsWith (?ls ! nat ?k) ''# ''"
    using getHeadingLine_result [of ?ls] by auto
  have upd: "?k \<noteq> -1 \<longrightarrow>
          length ?ls' = length ?ls \<and> nat ?k < length ?ls \<and> ?ls' ! nat ?k = ?h
          \<and> (\<forall>i. i < length ?ls \<and> i \<noteq> nat ?k \<longrightarrow> ?ls' ! i = ?ls ! i)
          \<and> getHeadingLine ?ls' = ?k"
  proof
    assume k: "?k \<noteq> -1"
    with found have fk: "nat ?k < length ?ls" "startsWith (?ls ! nat ?k) ''# ''" by auto
    then have "getHeadingLine (?ls[nat ?k := ?h]) = ?k"
      by (intro getHeadingLine_update) auto
    with k fk show "length ?ls' = length ?ls \<and> nat ?k < length ?ls \<and> ?ls' ! nat ?k = ?h
          \<and> (\<forall>i. i < length ?ls \<and> i \<noteq> nat ?k \<longrightarrow> ?ls' ! i = ?ls ! i)
          \<and> getHeadingLine ?ls' = ?k"
      by simp
  qed
  have ins: "?k = -1 \<longrightarrow> ?ls' = ?h # ?ls \<and> getHeadingLine ?ls' = 0"
    by (simp add: getHeadingLine_insert)
  have nl: "CHR 0x0A \<notin> set t \<longrightarrow> split (join ?ls') = ?ls'"
  proof
    assume t: "CHR 0x0A \<notin> set t"
    obtain c cs where sw: "swap_unit CHR ''-'' CHR '' '' t = c # cs"
      using assms(2) by (cases t) (auto simp: swap_unit_def)
    have nsw: "CHR 0x0A \<notin> set (c # cs)"
      using t unfolding sw [symmetric] by (auto simp: swap_unit_def)
    from assms(3) sw obtain u where u: "upper_unit c = Some u" and cap: "cap = u @ cs"
      by (auto simp: capitalize_Cons)
    have "CHR 0x0A \<notin> set u" using upper_unit_newline [OF u] nsw by auto
    with cap nsw have h: "CHR 0x0A \<notin> set ?h" by simp
    have "\<forall>l \<in> set ?ls'. CHR 0x0A \<notin> set l"
      using h split_no_newline [of _ data] by (auto dest: set_update_subset_insert [THEN subsetD])
    moreover have "?ls' \<noteq> []" by simp
    ultimately show "split (join ?ls') = ?ls'" by (rule split_join [rotated])
  qed
  from run upd ins nl show ?thesis by (intro exI [of _ ?ls']) (simp only: simp_thms)
qed

lemma ignore_loop_ok:
  "(\<forall>x \<in> set xs. \<exists>r. snd (deserializeRegExp compile x) = Inr r) \<Longrightarrow>
     snd (ignore_loop compile xs p)
       = Inr (\<exists>x \<in> set xs. \<exists>r. snd (deserializeRegExp compile x) = Inr r \<and> RegExp_exec r p \<noteq> None)"
proof (induction xs)
  case Nil
  then show ?case by simp
next
  case (Cons x xs)
  then obtain r where r: "snd (deserializeRegExp compile x) = Inr r" by auto
  then obtain ns where d: "deserializeRegExp compile x = (ns, Inr r)"
    by (cases "deserializeRegExp compile x") auto
  from Cons have IH: "snd (ignore_loop compile xs p)
       = Inr (\<exists>x \<in> set xs. \<exists>r. snd (deserializeRegExp compile x) = Inr r \<and> RegExp_exec r p \<noteq> None)"
    by simp
  show ?case
  proof (cases "RegExp_exec r p \<noteq> None")
    case True
    with d r show ?thesis by auto
  next
    case False
    with d r IH show ?thesis by (auto split: prod.splits)
  qed
qed

lemma ignore_loop_hit:
  "(\<forall>x \<in> set pre. \<exists>r. snd (deserializeRegExp compile x) = Inr r)
     \<Longrightarrow> snd (deserializeRegExp compile y) = Inr r \<Longrightarrow> RegExp_exec r p \<noteq> None
     \<Longrightarrow> snd (ignore_loop compile (pre @ y # post) p) = Inr True"
proof (induction pre)
  case Nil
  then show ?case by (cases "deserializeRegExp compile y") auto
next
  case (Cons x pre)
  then obtain q where q: "snd (deserializeRegExp compile x) = Inr q" by auto
  then obtain ns where d: "deserializeRegExp compile x = (ns, Inr q)"
    by (cases "deserializeRegExp compile x") auto
  from Cons have "snd (ignore_loop compile (pre @ y # post) p) = Inr True" by simp
  with d show ?case by (auto split: prod.splits)
qed

lemma ignoreFile_eq:
  "ignoreFile compile settings fileCache f =
     (if (extension f \<noteq> ''md'' \<and> extension f \<noteq> ''markdown'') \<or> marked fileCache
      then ([], Inr True)
      else ignore_loop compile (fileIgnoreRegexen settings) (path f))"
  by (auto simp: ignoreFile_def marked_def split: option.splits)

section \<open>Examples\<close>

text \<open>
  The two directions of the sync on the scenarios of the specification, and the case
  mapping on code units above 127.
\<close>

lemma missing_heading_falls_back_example:
  "getHeadingLine (split ''Some text'') = -1
   \<and> handleSyncHeadingToFilename literal_compile DEFAULT_SETTINGS
         [''notes/my-note.md'' \<mapsto> ''Some text''] (note_file ''my-note'')
       = ([empty_setting_notice,
           VaultModify ''notes/my-note.md'' (join [''# My note'', ''Some text''])], Inr ())"
proof -
  let ?v = "[''notes/my-note.md'' \<mapsto> ''Some text'']"
  have h1: "?v (path (note_file ''my-note'')) = Some ''Some text''"
    by (simp add: note_file_def)
  have h2: "getHeadingLine (split ''Some text'') = -1" by code_simp
  have r: "handleSyncFilenameToHeading literal_compile DEFAULT_SETTINGS ?v (note_file ''my-note'')
       = ([empty_setting_notice,
           VaultModify ''notes/my-note.md'' (join [''# My note'', ''Some text''])], Inr ())"
    by code_simp
  from missing_heading_falls_back
         [where vault = ?v and f = "note_file ''my-note''" and compile = literal_compile
            and settings = DEFAULT_SETTINGS, OF h1 h2] r h2
  show ?thesis by simp
qed

lemma filename_to_heading_writes_example:
  "sanitizeHeading literal_compile DEFAULT_SETTINGS (basename (note_file ''my-note''))
     = ([empty_setting_notice], Inr ''my-note'')
   \<and> handleSyncFilenameToHeading literal_compile DEFAULT_SETTINGS
         [''notes/my-note.md'' \<mapsto> ''Some text''] (note_file ''my-note'')
       = ([empty_setting_notice,
           VaultModify ''notes/my-note.md'' (join [''# My note'', ''Some text''])], Inr ())
   \<and> split (join [''# My note'', ''Some text'']) = [''# My note'', ''Some text'']
   \<and> getHeadingLine (split (join [''intro'', ''# Old'', ''body''])) = 1
   \<and> handleSyncFilenameToHeading literal_compile DEFAULT_SETTINGS
         [''notes/my-note.md'' \<mapsto> join [''intro'', ''# Old'', ''body'']] (note_file ''my-note'')
       = ([empty_setting_notice,
           VaultModify ''notes/my-note.md'' (join [''intro'', ''# My note'', ''body''])], Inr ())"
proof -
  let ?v = "[''notes/my-note.md'' \<mapsto> ''Some text'']"
  let ?d = "join [''intro'', ''# Old'', ''body'']"
  let ?w = "[''notes/my-note.md'' \<mapsto> ?d]"
  have h1: "sanitizeHeading literal_compile DEFAULT_SETTINGS (basename (note_file ''my-note''))
     = ([empty_setting_notice], Inr ''my-note'')"
    by code_simp
  have h2: "''my-note'' \<noteq> []" by simp
  have h3: "?v (path (note_file ''my-note'')) = Some ''Some text''"
    by (simp add: note_file_def)
  have h3': "?w (path (note_file ''my-note'')) = Some ?d"
    by (simp add: note_file_def)
  have k: "getHeadingLine (split ''Some text'') = -1" by code_simp
  have k': "getHeadingLine (split ?d) = 1" by code_simp
  have s: "split ''Some text'' = [''Some text'']" by code_simp
  have s': "split ?d = [''intro'', ''# Old'', ''body'']" by code_simp
  have c: "capitalize (swap_unit CHR ''-'' CHR '' '' ''my-note'') = Some ''My note''"
    by code_simp
  from filename_to_heading_writes
         [where vault = ?v and f = "note_file ''my-note''", OF h1 h2 c h3]
  obtain lines' where
    r: "handleSyncFilenameToHeading literal_compile DEFAULT_SETTINGS ?v (note_file ''my-note'')
          = ([empty_setting_notice] @ [VaultModify (path (note_file ''my-note'')) (join lines')], Inr ())"
    and i: "getHeadingLine (split ''Some text'') = -1 \<longrightarrow>
          lines' = (''# '' @ ''My note'') # split ''Some text''
          \<and> getHeadingLine lines' = 0"
    and n: "CHR 0x0A \<notin> set ''my-note'' \<longrightarrow> split (join lines') = lines'"
    by blast
  from i k s have l: "lines' = [''# My note'', ''Some text'']" by simp
  from n have sj: "split (join lines') = lines'" by simp
  from filename_to_heading_writes
         [where vault = ?w and f = "note_file ''my-note''", OF h1 h2 c h3']
  obtain lines2 where
    r2: "handleSyncFilenameToHeading literal_compile DEFAULT_SETTINGS ?w (note_file ''my-note'')
          = ([empty_setting_notice] @ [VaultModify (path (note_file ''my-note'')) (join lines2)], Inr ())"
    and u: "getHeadingLine (split ?d) \<noteq> -1 \<longrightarrow>
          length lines2 = length (split ?d)
          \<and> nat (getHeadingLine (split ?d)) < length (split ?d)
          \<and> lines2 ! nat (getHeadingLine (split ?d)) = ''# '' @ ''My note''

          \<and> (\<forall>i. i < length (split ?d) \<and> i \<noteq> nat (getHeadingLine (split ?d))
                 \<longrightarrow> lines2 ! i = split ?d ! i)
          \<and> getHeadingLine lines2 = getHeadingLine (split ?d)"
    by blast
  from u k' s' have len: "length lines2 = 3" and l1: "lines2 ! 1 = ''# My note''"
    and rest: "\<forall>i. i < 3 \<and> i \<noteq> 1 \<longrightarrow> lines2 ! i = [''intro'', ''# Old'', ''body''] ! i"
    by simp_all
  from rest have l0: "lines2 ! 0 = ''intro''" and l2: "lines2 ! 2 = ''body''"
    by (simp_all add: nth_Cons')
  from len obtain a b c where abc: "lines2 = [a, b, c]"
    by (auto simp: length_Suc_conv numeral_3_eq_3)
  with l0 l1 l2 have l': "lines2 = [''intro'', ''# My note'', ''body'']" by simp
  from r l sj r2 l' h1 k' show ?thesis by (simp add: note_file_def)
qed

lemma case_mapping_examples:
  "toUpperCase [CHR 0xE9] = Some [CHR 0xC9]
   \<and> toUpperCase [CHR 0xDF] = Some ''SS''
   \<and> toUpperCase [CHR 0xF7] = Some [CHR 0xF7]
   \<and> toUpperCase [CHR 0xB5] = None
   \<and> toUpperCase [CHR 0xFF] = None
   \<and> toLowerCase [CHR 0xC9, CHR 0xD7, CHR 0xDE, CHR 0xDF] = [CHR 0xE9, CHR 0xD7, CHR 0xFE, CHR 0xDF]
   \<and> handleSyncFilenameToHeading literal_compile DEFAULT_SETTINGS
         [''notes/x.md'' \<mapsto> ''Some text'']
         \<lparr>path = ''notes/x.md'', basename = [CHR 0xE9] @ ''cole'', extension = ''md'',
            parent = Some ''notes''\<rparr>
       = ([empty_setting_notice,
           VaultModify ''notes/x.md'' (join [''# '' @ [CHR 0xC9] @ ''cole'', ''Some text''])], Inr ())"
  by code_simp

section \<open>The claims\<close>

text \<open>
  C1. Sanitization is idempotent where the sanitized string is stable: if
  \<open>sanitizeHeading s\<close> returns \<open>t\<close>, \<open>t\<close> does not end in a dot, and removing the matches of
  the user pattern leaves \<open>t\<close> as it is (which is always so when \<open>userIllegalSymbols\<close> is the
  empty string of the default settings), then \<open>sanitizeHeading t\<close> returns \<open>t\<close> again, with
  the same notices.
\<close>

theorem sanitizeHeading_idempotent_on_stable:
  assumes "sanitizeHeading compile settings s = (ns, Inr t)"
    and "t = [] \<or> last t \<noteq> CHR ''.''"
    and "userIllegalSymbols settings = []
         \<or> (\<exists>r. snd (deserializeRegExp compile (userIllegalSymbols settings)) = Inr r
                \<and> String_replace t r [] = t)"
  shows "sanitizeHeading compile settings t = (ns, Inr t)"
proof -
  obtain r where d: "deserializeRegExp compile (userIllegalSymbols settings) = (ns, Inr r)"
    and t: "t = trim (String_replace (filter (\<lambda>c. c \<notin> set illegal_class) (drop_final_dot s)) r [])"
    using assms(1) by (auto simp: sanitizeHeading_eq split: prod.splits sum.splits)
  have st: "filter (\<lambda>c. c \<notin> set illegal_class) (drop_final_dot t) = t"
    using assms(1,2) by (rule sanitized_is_fixed_by_stock)
  have "String_replace t r [] = t"
    using assms(3)
  proof
    assume "userIllegalSymbols settings = []"
    with d have "r = end_then_start" by (simp add: deserialize_empty)
    then show ?thesis by (simp add: String_replace_sentinel)
  next
    assume "\<exists>r. snd (deserializeRegExp compile (userIllegalSymbols settings)) = Inr r
                \<and> String_replace t r [] = t"
    with d show ?thesis by auto
  qed
  moreover have "trim t = t" unfolding t by (rule trim_trim)
  ultimately show ?thesis using d st by (simp add: sanitizeHeading_eq)
qed

text \<open>Instances: \<open>Hello World\<close> with the default settings, and \<open>ab\<close> with the user
  pattern \<open>/@/g\<close>, are fixed points.\<close>

theorem sanitizeHeading_idempotent_on_stable_witness:
  "sanitizeHeading literal_compile DEFAULT_SETTINGS '' # Hello: World. ''
     = ([empty_setting_notice], Inr ''Hello World.'')
   \<and> sanitizeHeading literal_compile DEFAULT_SETTINGS ''Hello World.''
     = ([empty_setting_notice], Inr ''Hello World'')
   \<and> sanitizeHeading literal_compile DEFAULT_SETTINGS ''Hello World''
     = ([empty_setting_notice], Inr ''Hello World'')
   \<and> sanitizeHeading literal_compile \<lparr>userIllegalSymbols = ''/@/g'', fileIgnoreRegexen = []\<rparr> ''a@b''
     = ([], Inr ''ab'')
   \<and> sanitizeHeading literal_compile \<lparr>userIllegalSymbols = ''/@/g'', fileIgnoreRegexen = []\<rparr> ''ab''
     = ([], Inr ''ab'')"
proof -
  let ?U = "\<lparr>userIllegalSymbols = ''/@/g'', fileIgnoreRegexen = []\<rparr>"
  have a: "sanitizeHeading literal_compile DEFAULT_SETTINGS '' # Hello: World. ''
     = ([empty_setting_notice], Inr ''Hello World.'')" by code_simp
  have h1: "sanitizeHeading literal_compile DEFAULT_SETTINGS ''Hello World.''
     = ([empty_setting_notice], Inr ''Hello World'')" by code_simp
  have h2: "''Hello World'' = [] \<or> last ''Hello World'' \<noteq> CHR ''.''" by simp
  have h3: "userIllegalSymbols DEFAULT_SETTINGS = []
         \<or> (\<exists>r. snd (deserializeRegExp literal_compile (userIllegalSymbols DEFAULT_SETTINGS)) = Inr r
                \<and> String_replace ''Hello World'' r [] = ''Hello World'')"
    by (simp add: DEFAULT_SETTINGS_def)
  have u1: "sanitizeHeading literal_compile ?U ''a@b'' = ([], Inr ''ab'')" by code_simp
  have u2: "''ab'' = [] \<or> last ''ab'' \<noteq> CHR ''.''" by simp
  have "case snd (deserializeRegExp literal_compile ''/@/g'') of
          Inl e \<Rightarrow> False
        | Inr r \<Rightarrow> String_replace ''ab'' r [] = ''ab''"
    by code_simp
  then have u3: "userIllegalSymbols ?U = []
         \<or> (\<exists>r. snd (deserializeRegExp literal_compile (userIllegalSymbols ?U)) = Inr r
                \<and> String_replace ''ab'' r [] = ''ab'')"
    by (auto split: sum.splits)
  from sanitizeHeading_idempotent_on_stable [OF h1 h2 h3]
       sanitizeHeading_idempotent_on_stable [OF u1 u2 u3] a h1 u1
  show ?thesis by simp
qed

text \<open>
  Without these conditions idempotence fails. With the default settings \<open>a..\<close> becomes
  \<open>a.\<close> and \<open>a.\<close> becomes \<open>a\<close>: only a dot that ends the input is removed. With the user
  pattern \<open>/ab/g\<close>, \<open>aabb\<close> becomes \<open>ab\<close> and \<open>ab\<close> becomes the empty string: removing
  matches can bring new ones about.
\<close>

theorem sanitizeHeading_idempotent_counterexample:
  "snd (sanitizeHeading literal_compile DEFAULT_SETTINGS ''a..'') = Inr ''a.''
   \<and> snd (sanitizeHeading literal_compile DEFAULT_SETTINGS ''a.'') = Inr ''a''
   \<and> snd (sanitizeHeading literal_compile
            \<lparr>userIllegalSymbols = ''/ab/g'', fileIgnoreRegexen = []\<rparr> ''aabb'') = Inr ''ab''
   \<and> snd (sanitizeHeading literal_compile
            \<lparr>userIllegalSymbols = ''/ab/g'', fileIgnoreRegexen = []\<rparr> ''ab'') = Inr []"
  by code_simp

text \<open>
  C2. \<open>deserializeRegExp\<close> applied to \<open>/pattern/flags\<close>, the pattern without line break
  and the flags lower-case letters, makes no notice and returns \<open>new RegExp(pattern, flags)\<close>:
  the compiled pattern with those flags when the constructor accepts them. Applied to a
  string in which no slash is followed by another slash on the same line, it makes exactly
  one notice and returns the pattern \<open>$^\<close> with the global flag, which matches no
  non-empty input.
\<close>

theorem deserializeRegExp_cases:
  "(list_all (\<lambda>c. \<not> line_terminator c) p \<and> list_all lower_az fl \<longrightarrow>
      deserializeRegExp compile (''/'' @ p @ ''/'' @ fl) = ([], RegExp_new compile (Some p) fl))
   \<and> (\<forall>m. p \<noteq> [] \<and> valid_flags fl \<and> compile p fl = Some m \<longrightarrow>
         RegExp_new compile (Some p) fl = Inr \<lparr>matcher = m, flags = fl\<rparr>)
   \<and> (\<not> (\<exists>a b c. s = a @ ''/'' @ b @ ''/'' @ c \<and> list_all (\<lambda>x. \<not> line_terminator x) b) \<longrightarrow>
        deserializeRegExp compile s
          = ([Notice (''Invalid RegExp string: '' @ [CHR 0x22] @ s @ [CHR 0x22])],
             Inr end_then_start))
   \<and> global end_then_start
   \<and> (\<forall>x. x \<noteq> [] \<longrightarrow> RegExp_exec end_then_start x = None)"
proof (intro conjI allI impI)
  assume "list_all (\<lambda>c. \<not> line_terminator c) p \<and> list_all lower_az fl"
  then have "match_serialized (''/'' @ p @ ''/'' @ fl) = Some (if p = [] then None else Some p, fl)"
    by (intro match_serialized_literal) auto
  then show "deserializeRegExp compile (''/'' @ p @ ''/'' @ fl) = ([], RegExp_new compile (Some p) fl)"
    by (simp add: deserializeRegExp_def RegExp_new_empty)
next
  fix m
  assume "p \<noteq> [] \<and> valid_flags fl \<and> compile p fl = Some m"
  then show "RegExp_new compile (Some p) fl = Inr \<lparr>matcher = m, flags = fl\<rparr>"
    by (simp add: RegExp_new_def)
next
  assume "\<not> (\<exists>a b c. s = a @ ''/'' @ b @ ''/'' @ c \<and> list_all (\<lambda>x. \<not> line_terminator x) b)"
  then have "match_serialized s = None" using match_serialized_None [of s] by blast
  then show "deserializeRegExp compile s
          = ([Notice (''Invalid RegExp string: '' @ [CHR 0x22] @ s @ [CHR 0x22])],
             Inr end_then_start)"
    by (simp add: deserializeRegExp_def)
next
  show "global end_then_start" by simp
next
  fix x :: string
  assume "x \<noteq> []"
  then show "RegExp_exec end_then_start x = None" by (rule sentinel_no_match)
qed

text \<open>Instances: \<open>/@/g\<close> is deserialized without notice and keeps its flag;
  \<open>not-a-regex\<close> gives one notice and the pattern that does not match \<open>notes/x.md\<close>.\<close>

theorem deserializeRegExp_cases_witness:
  "deserializeRegExp literal_compile ''/@/g'' = ([], RegExp_new literal_compile (Some ''@'') ''g'')
   \<and> flags (case RegExp_new literal_compile (Some ''@'') ''g'' of Inl e \<Rightarrow> end_then_start | Inr r \<Rightarrow> r)
       = ''g''
   \<and> deserializeRegExp literal_compile ''not-a-regex''
       = ([Notice (''Invalid RegExp string: '' @ [CHR 0x22] @ ''not-a-regex'' @ [CHR 0x22])],
          Inr end_then_start)
   \<and> global end_then_start
   \<and> RegExp_exec end_then_start ''notes/x.md'' = None"
proof -
  note T = deserializeRegExp_cases [of "''@''" "''g''" literal_compile "''not-a-regex''"]
  have h1: "list_all (\<lambda>c. \<not> line_terminator c) ''@'' \<and> list_all lower_az ''g''"
    by (simp add: line_terminator_def lower_az_def)
  from T [THEN conjunct1, rule_format, OF h1]
  have 1: "deserializeRegExp literal_compile ''/@/g'' = ([], RegExp_new literal_compile (Some ''@'') ''g'')"
    by simp
  have "\<exists>m. literal_compile ''@'' ''g'' = Some m" by (simp add: literal_compile_def metachars_def)
  then obtain m where m: "literal_compile ''@'' ''g'' = Some m" by blast
  have h2: "''@'' \<noteq> [] \<and> valid_flags ''g'' \<and> literal_compile ''@'' ''g'' = Some m"
    using m by (simp add: valid_flags_def)
  from T [THEN conjunct2, THEN conjunct1, rule_format, OF h2]
  have 2: "flags (case RegExp_new literal_compile (Some ''@'') ''g'' of Inl e \<Rightarrow> end_then_start | Inr r \<Rightarrow> r)
       = ''g''" by simp
  have h3: "\<not> (\<exists>a b c. ''not-a-regex'' = a @ ''/'' @ b @ ''/'' @ c \<and> list_all (\<lambda>x. \<not> line_terminator x) b)"
  proof
    assume "\<exists>a b c. ''not-a-regex'' = a @ ''/'' @ b @ ''/'' @ c \<and> list_all (\<lambda>x. \<not> line_terminator x) b"
    then obtain a b c where "''not-a-regex'' = a @ ''/'' @ b @ ''/'' @ c" by blast
    then have "CHR ''/'' \<in> set ''not-a-regex''" by (metis append_Cons in_set_conv_decomp)
    then show False by simp
  qed
  from T [THEN conjunct2, THEN conjunct2, THEN conjunct1, rule_format, OF h3]
  have 3: "deserializeRegExp literal_compile ''not-a-regex''
       = ([Notice (''Invalid RegExp string: '' @ [CHR 0x22] @ ''not-a-regex'' @ [CHR 0x22])],
          Inr end_then_start)" .
  from T have 4: "global end_then_start" by blast
  from T [THEN conjunct2, THEN conjunct2, THEN conjunct2, THEN conjunct2, rule_format, of "''notes/x.md''"]
  have 5: "RegExp_exec end_then_start ''notes/x.md'' = None" by simp
  from 1 2 3 4 5 show ?thesis by blast
qed

text \<open>
  The pattern returned for \<open>not-a-regex\<close> does match one input: the empty string, at
  index 0 with length 0, where the end and the start of the input coincide. And a string
  that only holds \<open>/pattern/flags\<close> somewhere, such as \<open>x/a/g\<close>, is deserialized without
  notice: the pattern returned for it is \<open>a\<close>, which matches in \<open>banana\<close>.
\<close>

theorem deserializeRegExp_sentinel_counterexample:
  "(case snd (deserializeRegExp literal_compile ''not-a-regex'') of
      Inl e \<Rightarrow> None
    | Inr r \<Rightarrow> RegExp_exec r []) = Some (0, 0)
   \<and> fst (deserializeRegExp literal_compile ''x/a/g'') = []
   \<and> (case snd (deserializeRegExp literal_compile ''x/a/g'') of
         Inl e \<Rightarrow> None
       | Inr r \<Rightarrow> RegExp_exec r ''banana'') = Some (1, 1)"
  by code_simp

text \<open>
  C3. The filename-to-heading sync is to leave every document with the heading line
  \<open>"# " + capitalize(sanitize(basename).replace("-", " "))\<close>. For the file \<open>#.md\<close> with the
  one line \<open>Some text\<close> and the default settings it does not: the basename sanitizes to
  the empty string, \<open>heading[0]\<close> is undefined, and the sync ends with a TypeError after the
  notice of the sanitization, with no document written.
\<close>

theorem filename_to_heading_empty_basename:
  "handleSyncFilenameToHeading literal_compile DEFAULT_SETTINGS
         [''notes/#.md'' \<mapsto> ''Some text''] (note_file ''#'')
       = ([empty_setting_notice], Inl TypeError)"
  by code_simp

text \<open>
  C4. For a document in which \<open>getHeadingLine\<close> finds the heading line \<open>k\<close>, in a folder
  \<open>dir\<close>, and when the sanitization of that line returns a string, the
  heading-to-filename sync asks for one rename, to \<open>dir/slug.md\<close>, where \<open>slug\<close> is the
  sanitized heading line (the whole line, its marker \<open>"# "\<close> included) in lower case with
  every space a hyphen. The line is \<open>"# " + h\<close> for a heading text \<open>h\<close>, and with the empty
  \<open>userIllegalSymbols\<close> of the default settings sanitizing the line and sanitizing \<open>h\<close>
  give the same string.
\<close>

theorem heading_to_filename_renames:
  assumes "vault (path f) = Some data" and "getHeadingLine (split data) = int k"
    and "sanitizeHeading compile settings (split data ! k) = (ns, Inr t)"
    and "parent f = Some dir"
  shows "handleSyncHeadingToFilename compile settings vault f
           = (ns @ [RenameFile (path f)
                      (dir @ ''/'' @ swap_unit CHR '' '' CHR ''-'' (toLowerCase t) @ ''.md'')],
              Inr ())
         \<and> (\<exists>h. split data ! k = ''# '' @ h
                \<and> (userIllegalSymbols settings = []
                     \<longrightarrow> snd (sanitizeHeading compile settings h) = Inr t))"
proof -
  have run: "handleSyncHeadingToFilename compile settings vault f
           = (ns @ [RenameFile (path f)
                      (dir @ ''/'' @ swap_unit CHR '' '' CHR ''-'' (toLowerCase t) @ ''.md'')],
              Inr ())"
    using assms
    by (simp add: handleSyncHeadingToFilename_def Let_def String_replace_swap toLowerCase_swap)
  have "startsWith (split data ! k) ''# ''"
    using getHeadingLine_result [of "split data"] assms(2) by auto
  then have line: "split data ! k = ''# '' @ drop 2 (split data ! k)"
    by (rule startsWith_decompose)
  have "userIllegalSymbols settings = []
          \<longrightarrow> snd (sanitizeHeading compile settings (drop 2 (split data ! k))) = Inr t"
  proof
    assume d: "userIllegalSymbols settings = []"
    have "snd (sanitizeHeading compile settings (''# '' @ drop 2 (split data ! k))) = Inr t"
      using assms(3) line by simp
    then show "snd (sanitizeHeading compile settings (drop 2 (split data ! k))) = Inr t"
      using stock_of_heading_line [of "drop 2 (split data ! k)"]
      by (simp only: sanitizeHeading_default [OF d])
  qed
  with line run show ?thesis by blast
qed

text \<open>The scenario of the specification: the lines \<open># Hello World\<close>, \<open>body\<close> give a
  rename to \<open>hello-world.md\<close> in the same folder. And a heading with the letter U+00C9 is
  renamed with U+00E9 in its place.\<close>

theorem heading_to_filename_renames_witness:
  "getHeadingLine (split (join [''# Hello World'', ''body''])) = 0
   \<and> sanitizeHeading literal_compile DEFAULT_SETTINGS ''# Hello World''
       = ([empty_setting_notice], Inr ''Hello World'')
   \<and> snd (sanitizeHeading literal_compile DEFAULT_SETTINGS ''Hello World'') = Inr ''Hello World''
   \<and> handleSyncHeadingToFilename literal_compile DEFAULT_SETTINGS
         [''notes/x.md'' \<mapsto> join [''# Hello World'', ''body'']] (note_file ''x'')
       = ([empty_setting_notice, RenameFile ''notes/x.md'' ''notes/hello-world.md''], Inr ())
   \<and> handleSyncHeadingToFilename literal_compile DEFAULT_SETTINGS
         [''notes/x.md'' \<mapsto> ''# '' @ [CHR 0xC9] @ ''t'' @ [CHR 0xC9] @ '' Day''] (note_file ''x'')
       = ([empty_setting_notice,
           RenameFile ''notes/x.md'' (''notes/'' @ [CHR 0xE9] @ ''t'' @ [CHR 0xE9] @ ''-day.md'')],
          Inr ())"
proof -
  let ?d = "join [''# Hello World'', ''body'']"
  let ?v = "[''notes/x.md'' \<mapsto> ?d]"
  let ?e = "''# '' @ [CHR 0xC9] @ ''t'' @ [CHR 0xC9] @ '' Day''"
  let ?w = "[''notes/x.md'' \<mapsto> ?e]"
  let ?t = "[CHR 0xC9] @ ''t'' @ [CHR 0xC9] @ '' Day''"
  have h1: "?v (path (note_file ''x'')) = Some ?d" by (simp add: note_file_def)
  have h2: "getHeadingLine (split ?d) = int 0" by code_simp
  have l: "split ?d ! 0 = ''# Hello World''" by code_simp
  have s: "sanitizeHeading literal_compile DEFAULT_SETTINGS ''# Hello World''
       = ([empty_setting_notice], Inr ''Hello World'')" by code_simp
  have h3: "sanitizeHeading literal_compile DEFAULT_SETTINGS (split ?d ! 0)
       = ([empty_setting_notice], Inr ''Hello World'')"
    by (simp only: l s)
  have h4: "parent (note_file ''x'') = Some ''notes''" by (simp add: note_file_def)
  have p: "''notes'' @ ''/'' @ swap_unit CHR '' '' CHR ''-'' (toLowerCase ''Hello World'') @ ''.md''
             = ''notes/hello-world.md''" by code_simp
  have d: "userIllegalSymbols DEFAULT_SETTINGS = []" by (simp add: DEFAULT_SETTINGS_def)
  from heading_to_filename_renames
         [where vault = ?v and f = "note_file ''x''", OF h1 h2 h3 h4]
  obtain h where
    r: "handleSyncHeadingToFilename literal_compile DEFAULT_SETTINGS ?v (note_file ''x'')
          = ([empty_setting_notice] @ [RenameFile (path (note_file ''x''))
               (''notes'' @ ''/'' @ swap_unit CHR '' '' CHR ''-'' (toLowerCase ''Hello World'') @ ''.md'')],
             Inr ())"
    and hl: "split ?d ! 0 = ''# '' @ h"
    and hs: "userIllegalSymbols DEFAULT_SETTINGS = []
               \<longrightarrow> snd (sanitizeHeading literal_compile DEFAULT_SETTINGS h) = Inr ''Hello World''"
    by blast
  from hl l have "h = ''Hello World''" by simp
  with hs d have t: "snd (sanitizeHeading literal_compile DEFAULT_SETTINGS ''Hello World'') = Inr ''Hello World''"
    by simp
  from r have r': "handleSyncHeadingToFilename literal_compile DEFAULT_SETTINGS ?v (note_file ''x'')
       = ([empty_setting_notice, RenameFile ''notes/x.md'' ''notes/hello-world.md''], Inr ())"
    by (simp only: p) (simp add: note_file_def)
  have g1: "?w (path (note_file ''x'')) = Some ?e" by (simp add: note_file_def)
  have g2: "getHeadingLine (split ?e) = int 0" by code_simp
  have g3: "sanitizeHeading literal_compile DEFAULT_SETTINGS (split ?e ! 0)
       = ([empty_setting_notice], Inr ?t)" by code_simp
  have q: "''notes'' @ ''/'' @ swap_unit CHR '' '' CHR ''-'' (toLowerCase ?t) @ ''.md''
             = ''notes/'' @ [CHR 0xE9] @ ''t'' @ [CHR 0xE9] @ ''-day.md''" by code_simp
  from heading_to_filename_renames
         [where vault = ?w and f = "note_file ''x''", OF g1 g2 g3 h4]
  have "handleSyncHeadingToFilename literal_compile DEFAULT_SETTINGS ?w (note_file ''x'')
          = ([empty_setting_notice] @ [RenameFile (path (note_file ''x''))
               (''notes'' @ ''/'' @ swap_unit CHR '' '' CHR ''-'' (toLowerCase ?t) @ ''.md'')],
             Inr ())"
    by blast
  then have r2: "handleSyncHeadingToFilename literal_compile DEFAULT_SETTINGS ?w (note_file ''x'')
       = ([empty_setting_notice,
           RenameFile ''notes/x.md'' (''notes/'' @ [CHR 0xE9] @ ''t'' @ [CHR 0xE9] @ ''-day.md'')],
          Inr ())"
    by (simp only: q) (simp add: note_file_def)
  from h2 s t r' r2 show ?thesis by simp
qed

text \<open>With the user pattern \<open>/ H/g\<close> the heading text \<open>Hello World\<close> sanitizes to itself,
  but the sync sanitizes the line \<open># Hello World\<close>, in which the pattern finds a match once
  the marker is gone, and asks for \<open>ello-world.md\<close>.\<close>

theorem heading_to_filename_counterexample:
  "snd (sanitizeHeading literal_compile
          \<lparr>userIllegalSymbols = ''/ H/g'', fileIgnoreRegexen = []\<rparr> ''Hello World'')
     = Inr ''Hello World''
   \<and> handleSyncHeadingToFilename literal_compile
         \<lparr>userIllegalSymbols = ''/ H/g'', fileIgnoreRegexen = []\<rparr>
         [''notes/x.md'' \<mapsto> join [''# Hello World'', ''body'']] (note_file ''x'')
       = ([RenameFile ''notes/x.md'' ''notes/ello-world.md''], Inr ())"
  by code_simp

text \<open>
  C5. \<open>getStartLine\<close> is 0 when the first line is not \<open>---\<close>, one past the index of the
  next line equal to \<open>---\<close> (searched from index 1) when the first line is \<open>---\<close> and such
  a line exists, and 0 when the first line is \<open>---\<close> and no later line is.
  \<open>getHeadingLine\<close> returns the index of the first line at or after that start line that
  starts with \<open>"# "\<close>, and -1 when no line from there on does.
\<close>

theorem getHeadingLine_first_heading:
  "(lines = [] \<or> hd lines \<noteq> ''---'' \<longrightarrow> getStartLine lines = 0)
   \<and> (\<forall>j. lines \<noteq> [] \<and> hd lines = ''---'' \<and> 1 \<le> j \<and> j < length lines \<and> lines ! j = ''---''
          \<and> (\<forall>k. 1 \<le> k \<and> k < j \<longrightarrow> lines ! k \<noteq> ''---'')
        \<longrightarrow> getStartLine lines = int j + 1)
   \<and> (lines \<noteq> [] \<and> hd lines = ''---'' \<and> (\<forall>j. 1 \<le> j \<and> j < length lines \<longrightarrow> lines ! j \<noteq> ''---'')
        \<longrightarrow> getStartLine lines = 0)
   \<and> (\<forall>i. nat (getStartLine lines) \<le> i \<and> i < length lines \<and> startsWith (lines ! i) ''# ''
          \<and> (\<forall>k. nat (getStartLine lines) \<le> k \<and> k < i \<longrightarrow> \<not> startsWith (lines ! k) ''# '')
        \<longrightarrow> getHeadingLine lines = int i)
   \<and> ((\<forall>i. nat (getStartLine lines) \<le> i \<and> i < length lines \<longrightarrow> \<not> startsWith (lines ! i) ''# '')
        \<longrightarrow> getHeadingLine lines = -1)"
proof (intro conjI allI impI)
  assume "lines = [] \<or> hd lines \<noteq> ''---''"
  then show "getStartLine lines = 0" by (auto simp: getStartLine_def split: list.splits)
next
  fix j
  assume a: "lines \<noteq> [] \<and> hd lines = ''---'' \<and> 1 \<le> j \<and> j < length lines \<and> lines ! j = ''---''
          \<and> (\<forall>k. 1 \<le> k \<and> k < j \<longrightarrow> lines ! k \<noteq> ''---'')"
  then have "indexOf lines ''---'' 1 = int j" by (intro indexOf_found) auto
  with a show "getStartLine lines = int j + 1" by (auto simp: getStartLine_def split: list.splits)
next
  assume a: "lines \<noteq> [] \<and> hd lines = ''---'' \<and> (\<forall>j. 1 \<le> j \<and> j < length lines \<longrightarrow> lines ! j \<noteq> ''---'')"
  then have "indexOf lines ''---'' 1 = -1" by (intro indexOf_none) auto
  with a show "getStartLine lines = 0" by (auto simp: getStartLine_def split: list.splits)
next
  fix i
  assume "nat (getStartLine lines) \<le> i \<and> i < length lines \<and> startsWith (lines ! i) ''# ''
          \<and> (\<forall>k. nat (getStartLine lines) \<le> k \<and> k < i \<longrightarrow> \<not> startsWith (lines ! k) ''# '')"
  then show "getHeadingLine lines = int i"
    unfolding getHeadingLine_def by (intro heading_loop_found) auto
next
  assume "\<forall>i. nat (getStartLine lines) \<le> i \<and> i < length lines \<longrightarrow> \<not> startsWith (lines ! i) ''# ''"
  then show "getHeadingLine lines = -1"
    unfolding getHeadingLine_def by (intro heading_loop_none) auto
qed

text \<open>Instances: closed front matter is skipped, front matter that is not closed is
  scanned from the top, and a document without heading gives -1.\<close>

theorem getHeadingLine_first_heading_witness:
  "getStartLine [''---'', ''title: x'', ''---'', ''# Real Heading''] = 3
   \<and> getHeadingLine [''---'', ''title: x'', ''---'', ''# Real Heading''] = 3
   \<and> getStartLine [''---'', ''# a''] = 0
   \<and> getHeadingLine [''---'', ''# a''] = 1
   \<and> getStartLine [''Some text''] = 0
   \<and> getHeadingLine [''Some text''] = -1"
proof -
  let ?a = "[''---'', ''title: x'', ''---'', ''# Real Heading'']"
  let ?b = "[''---'', ''# a'']"
  let ?c = "[''Some text'']"
  note A = getHeadingLine_first_heading [of ?a]
  note B = getHeadingLine_first_heading [of ?b]
  note C = getHeadingLine_first_heading [of ?c]
  have a1: "getStartLine ?a = 3"
    using A [THEN conjunct2, THEN conjunct1, rule_format, of 2]
    by (simp add: small_range upt_rec)
  have a2: "getHeadingLine ?a = 3"
    using A [THEN conjunct2, THEN conjunct2, THEN conjunct2, THEN conjunct1, rule_format, of 3]
    by (simp add: a1 small_range upt_rec startsWith_def)
  have b1: "getStartLine ?b = 0"
    using B [THEN conjunct2, THEN conjunct2, THEN conjunct1]
    by (simp add: small_range upt_rec)
  have b2: "getHeadingLine ?b = 1"
    using B [THEN conjunct2, THEN conjunct2, THEN conjunct2, THEN conjunct1, rule_format, of 1]
    by (simp add: b1 small_range upt_rec startsWith_def)
  have c1: "getStartLine ?c = 0"
    using C [THEN conjunct1] by simp
  have c2: "getHeadingLine ?c = -1"
    using C [THEN conjunct2, THEN conjunct2, THEN conjunct2, THEN conjunct2]
    by (simp add: c1 small_range upt_rec startsWith_def)
  from a1 a2 b1 b2 c1 c2 show ?thesis by simp
qed

text \<open>
  C6. When every configured ignore pattern deserializes without error, \<open>ignoreFile\<close>
  returns true if and only if the extension is neither \<open>md\<close> nor \<open>markdown\<close>, or the front
  matter holds a truthy value under the key \<open>excalidraw-plugin\<close> or \<open>kanban-plugin\<close>, or
  the \<open>exec\<close> of some deserialized ignore pattern on the path finds a match; otherwise it
  returns false. For an extension that is neither \<open>md\<close> nor \<open>markdown\<close> it returns true
  whatever the patterns are, without deserializing them.
\<close>

theorem ignoreFile_iff:
  "((\<forall>x \<in> set (fileIgnoreRegexen settings). \<exists>r. snd (deserializeRegExp compile x) = Inr r) \<longrightarrow>
      snd (ignoreFile compile settings fileCache f)
        = Inr ((extension f \<noteq> ''md'' \<and> extension f \<noteq> ''markdown'')
               \<or> (\<exists>c fm. fileCache = Some c \<and> frontmatter c = Some fm
                      \<and> (truthy (fm ''excalidraw-plugin'') \<or> truthy (fm ''kanban-plugin'')))
               \<or> (\<exists>x \<in> set (fileIgnoreRegexen settings).
                     \<exists>r. snd (deserializeRegExp compile x) = Inr r \<and> RegExp_exec r (path f) \<noteq> None)))
   \<and> (extension f \<noteq> ''md'' \<and> extension f \<noteq> ''markdown''
        \<longrightarrow> ignoreFile compile settings fileCache f = ([], Inr True))"
proof (intro conjI impI)
  assume ok: "\<forall>x \<in> set (fileIgnoreRegexen settings). \<exists>r. snd (deserializeRegExp compile x) = Inr r"
  show "snd (ignoreFile compile settings fileCache f)
        = Inr ((extension f \<noteq> ''md'' \<and> extension f \<noteq> ''markdown'')
               \<or> (\<exists>c fm. fileCache = Some c \<and> frontmatter c = Some fm
                      \<and> (truthy (fm ''excalidraw-plugin'') \<or> truthy (fm ''kanban-plugin'')))
               \<or> (\<exists>x \<in> set (fileIgnoreRegexen settings).
                     \<exists>r. snd (deserializeRegExp compile x) = Inr r \<and> RegExp_exec r (path f) \<noteq> None))"
  proof (cases "(extension f \<noteq> ''md'' \<and> extension f \<noteq> ''markdown'') \<or> marked fileCache")
    case True
    then show ?thesis by (auto simp: ignoreFile_eq marked_def)
  next
    case False
    with ignore_loop_ok [OF ok, of "path f"] show ?thesis
      by (auto simp: ignoreFile_eq marked_def)
  qed
next
  assume "extension f \<noteq> ''md'' \<and> extension f \<noteq> ''markdown''"
  then show "ignoreFile compile settings fileCache f = ([], Inr True)"
    by (simp add: ignoreFile_eq)
qed

text \<open>Instances: a \<open>.txt\<close> file is ignored; a \<open>.md\<close> file with no front matter and no
  matching pattern is not; a path that a pattern matches and a truthy plugin key are.\<close>

theorem ignoreFile_iff_witness:
  "snd (ignoreFile literal_compile (ignoring [''/excalidraw/g'']) None
          \<lparr>path = ''notes/todo.txt'', basename = ''todo'', extension = ''txt'', parent = Some ''notes''\<rparr>)
     = Inr True
   \<and> snd (ignoreFile literal_compile (ignoring [''/excalidraw/g'']) None (note_file ''plain''))
     = Inr False
   \<and> snd (ignoreFile literal_compile (ignoring [''/excalidraw/g'']) None
            (note_file ''drawing.excalidraw''))
     = Inr True
   \<and> snd (ignoreFile literal_compile (ignoring [''/excalidraw/g''])
            (Some \<lparr>frontmatter = Some [''kanban-plugin'' \<mapsto> FStr ''board'']\<rparr>) (note_file ''plain''))
     = Inr True"
proof -
  let ?S = "ignoring [''/excalidraw/g'']"
  let ?txt = "\<lparr>path = ''notes/todo.txt'', basename = ''todo'', extension = ''txt'', parent = Some ''notes''\<rparr>"
  let ?fm = "Some \<lparr>frontmatter = Some [''kanban-plugin'' \<mapsto> FStr ''board'']\<rparr>"
  have e1: "case snd (deserializeRegExp literal_compile ''/excalidraw/g'') of
              Inl e \<Rightarrow> False
            | Inr r \<Rightarrow> RegExp_exec r ''notes/drawing.excalidraw.md'' \<noteq> None
                       \<and> RegExp_exec r ''notes/plain.md'' = None"
    by code_simp
  then obtain r0 where r0: "snd (deserializeRegExp literal_compile ''/excalidraw/g'') = Inr r0"
    and hit: "RegExp_exec r0 ''notes/drawing.excalidraw.md'' \<noteq> None"
    and miss: "RegExp_exec r0 ''notes/plain.md'' = None"
    by (auto split: sum.splits)
  have hyp: "\<forall>x \<in> set (fileIgnoreRegexen ?S). \<exists>r. snd (deserializeRegExp literal_compile x) = Inr r"
    using r0 by (simp add: ignoring_def)
  have x: "extension ?txt \<noteq> ''md'' \<and> extension ?txt \<noteq> ''markdown''" by simp
  from ignoreFile_iff [where f = ?txt, THEN conjunct2, THEN mp, OF x]
  have 1: "snd (ignoreFile literal_compile ?S None ?txt) = Inr True" by simp
  from ignoreFile_iff [where f = "note_file ''plain''" and fileCache = None, THEN conjunct1, THEN mp, OF hyp]
  have 2: "snd (ignoreFile literal_compile ?S None (note_file ''plain'')) = Inr False"
    using r0 miss by (simp add: ignoring_def note_file_def)
  from ignoreFile_iff [where f = "note_file ''drawing.excalidraw''" and fileCache = None,
                       THEN conjunct1, THEN mp, OF hyp]
  have 3: "snd (ignoreFile literal_compile ?S None (note_file ''drawing.excalidraw'')) = Inr True"
    using r0 hit by (simp add: ignoring_def note_file_def)
  from ignoreFile_iff [where f = "note_file ''plain''" and fileCache = ?fm, THEN conjunct1, THEN mp, OF hyp]
  have 4: "snd (ignoreFile literal_compile ?S ?fm (note_file ''plain'')) = Inr True"
    by (simp add: note_file_def)
  from 1 2 3 4 show ?thesis by blast
qed

text \<open>
  A plugin key that is present with a falsy value does not make the file ignored: the code
  tests the value, not the presence of the key. And with an ignore pattern that the
  constructor rejects (\<open>/a/x\<close>, for its flag) \<open>ignoreFile\<close> returns neither true nor false
  for a markdown file: it ends with the SyntaxError.
\<close>

theorem ignoreFile_falsy_marker_counterexample:
  "[''kanban-plugin'' \<mapsto> FBool False] ''kanban-plugin'' = Some (FBool False)
   \<and> ignoreFile literal_compile (ignoring [])
        (Some \<lparr>frontmatter = Some [''kanban-plugin'' \<mapsto> FBool False]\<rparr>) (note_file ''board'')
      = ([], Inr False)
   \<and> ignoreFile literal_compile (ignoring [''/a/x'']) None (note_file ''plain'')
      = ([], Inl SyntaxError)"
proof -
  have "ignoreFile literal_compile (ignoring [''/a/x'']) None (note_file ''plain'')
      = ([], Inl SyntaxError)"
    by code_simp
  then show ?thesis by (simp add: ignoreFile_def ignoring_def note_file_def)
qed

text \<open>
  C7. \<open>sanitizeHeading\<close> works in three steps, in this order. In one pass over the input
  it removes every backslash, slash, colon, pipe, \<open>#\<close>, \<open>^\<close>, \<open>[\<close> and \<open>]\<close> and a dot that
  is the last code unit of the input; then it applies \<open>replace\<close> with the deserialized user
  pattern and the empty replacement; then it trims white space at both ends. The second
  step removes every match when the pattern has the global flag (and is not sticky), and
  the first match only when it has no global flag. When the user pattern does not
  deserialize, the error is the outcome.
\<close>

theorem sanitizeHeading_steps:
  "sanitizeHeading compile settings s =
     (case deserializeRegExp compile (userIllegalSymbols settings) of
        (ns, Inl e) \<Rightarrow> (ns, Inl e)
      | (ns, Inr r) \<Rightarrow>
          (ns, Inr (trim (String_replace
                            (filter (\<lambda>c. c \<notin> set illegal_class) (drop_final_dot s)) r []))))
   \<and> (\<forall>x r. global r \<and> \<not> sticky r \<longrightarrow> String_replace x r [] = remove_matches (matcher r) x 0)
   \<and> (\<forall>x r. \<not> global r \<longrightarrow>
         String_replace x r [] =
           (case exec_from r x 0 of None \<Rightarrow> x | Some (k, n) \<Rightarrow> take k x @ drop (k + n) x))"
proof -
  have steps: "sanitizeHeading compile settings s =
     (case deserializeRegExp compile (userIllegalSymbols settings) of
        (ns, Inl e) \<Rightarrow> (ns, Inl e)
      | (ns, Inr r) \<Rightarrow>
          (ns, Inr (trim (String_replace
                            (filter (\<lambda>c. c \<notin> set illegal_class) (drop_final_dot s)) r []))))"
    by (rule sanitizeHeading_eq)
  have every: "\<forall>x r. global r \<and> \<not> sticky r
                 \<longrightarrow> String_replace x r [] = remove_matches (matcher r) x 0"
    by (simp add: String_replace_global replace_from_remove)
  have first: "\<forall>x r. \<not> global r \<longrightarrow>
         String_replace x r [] =
           (case exec_from r x 0 of None \<Rightarrow> x | Some (k, n) \<Rightarrow> take k x @ drop (k + n) x)"
    by (simp add: String_replace_first)
  from steps every first show ?thesis by (intro conjI)
qed

text \<open>Instances of the second step on \<open>a@b@c\<close>: the pattern for \<open>@\<close> with the global flag
  removes both matches, without it the first one only.\<close>

theorem sanitizeHeading_steps_witness:
  "global (unit_pattern CHR ''@'') \<and> \<not> sticky (unit_pattern CHR ''@'')
   \<and> String_replace ''a@b@c'' (unit_pattern CHR ''@'') [] = ''abc''
   \<and> \<not> global ((unit_pattern CHR ''@'')\<lparr>flags := []\<rparr>)
   \<and> String_replace ''a@b@c'' ((unit_pattern CHR ''@'')\<lparr>flags := []\<rparr>) [] = ''ab@c''"
proof -
  note T = sanitizeHeading_steps [of literal_compile DEFAULT_SETTINGS "[]"]
  have g: "global (unit_pattern CHR ''@'') \<and> \<not> sticky (unit_pattern CHR ''@'')" by simp
  have n: "\<not> global ((unit_pattern CHR ''@'')\<lparr>flags := []\<rparr>)" by (simp add: global_def)
  have r: "remove_matches (matcher (unit_pattern CHR ''@'')) ''a@b@c'' 0 = ''abc''" by code_simp
  have e: "(case exec_from ((unit_pattern CHR ''@'')\<lparr>flags := []\<rparr>) ''a@b@c'' 0 of
              None \<Rightarrow> ''a@b@c'' | Some (k, n) \<Rightarrow> take k ''a@b@c'' @ drop (k + n) ''a@b@c'') = ''ab@c''"
    by code_simp
  from T [THEN conjunct2, THEN conjunct1, rule_format, OF g] r
  have 1: "String_replace ''a@b@c'' (unit_pattern CHR ''@'') [] = ''abc''" by simp
  from T [THEN conjunct2, THEN conjunct2, rule_format, OF n] e
  have 2: "String_replace ''a@b@c'' ((unit_pattern CHR ''@'')\<lparr>flags := []\<rparr>) [] = ''ab@c''" by simp
  from g n 1 2 show ?thesis by simp
qed

text \<open>With \<open>userIllegalSymbols = /@/\<close> one occurrence of the pattern is left in the
  result: \<open>a@b@c\<close> becomes \<open>ab@c\<close>, where the pattern still matches at index 2.\<close>

theorem sanitizeHeading_steps_counterexample:
  "snd (sanitizeHeading literal_compile \<lparr>userIllegalSymbols = ''/@/'', fileIgnoreRegexen = []\<rparr> ''a@b@c'')
       = Inr ''ab@c''
   \<and> (case snd (deserializeRegExp literal_compile ''/@/'') of
         Inl e \<Rightarrow> None
       | Inr r \<Rightarrow> RegExp_exec r ''ab@c'') = Some (2, 1)"
  by code_simp

text \<open>
  C8. A document without heading is to get a heading from its file name, with no rename and
  no error. For the file \<open>#.md\<close> with the one line \<open>Some text\<close> and the default settings,
  \<open>getHeadingLine\<close> finds no heading and the heading-to-filename sync falls back to the
  filename-to-heading sync, which ends with the TypeError of the empty sanitized basename:
  no rename is asked for, and no heading is written either.
\<close>

theorem missing_heading_empty_basename:
  "getHeadingLine (split ''Some text'') = -1
   \<and> handleSyncHeadingToFilename literal_compile DEFAULT_SETTINGS
         [''notes/#.md'' \<mapsto> ''Some text''] (note_file ''#'')
       = ([empty_setting_notice], Inl TypeError)"
  by code_simp

text \<open>
  C9. For a file whose basename sanitizes to the empty string, the filename-to-heading sync
  ends with a TypeError (the upper-casing of the first code unit of an empty string), and
  its calls to the host are the notices of the sanitization only: no document is written.
  The sync ends with a TypeError in this case only.
\<close>

theorem empty_basename_throws:
  "(sanitizeHeading compile settings (basename f) = (ns, Inr [])
      \<longrightarrow> handleSyncFilenameToHeading compile settings vault f = (ns, Inl TypeError)
          \<and> (\<forall>p d. VaultModify p d \<notin> set ns))
   \<and> (snd (handleSyncFilenameToHeading compile settings vault f) = Inl TypeError
      \<longrightarrow> snd (sanitizeHeading compile settings (basename f)) = Inr [])"
proof -
  have throws: "sanitizeHeading compile settings (basename f) = (ns, Inr [])
      \<longrightarrow> handleSyncFilenameToHeading compile settings vault f = (ns, Inl TypeError)
          \<and> (\<forall>p d. VaultModify p d \<notin> set ns)"
  proof
    assume a: "sanitizeHeading compile settings (basename f) = (ns, Inr [])"
    have "\<forall>p d. VaultModify p d \<notin> set ns"
      using a sanitizeHeading_notice_only [of _ compile settings "basename f"] by fastforce
    with handleSyncFilenameToHeading_eq [OF a]
    show "handleSyncFilenameToHeading compile settings vault f = (ns, Inl TypeError)
          \<and> (\<forall>p d. VaultModify p d \<notin> set ns)"
      by simp
  qed
  have only: "snd (handleSyncFilenameToHeading compile settings vault f) = Inl TypeError
      \<longrightarrow> snd (sanitizeHeading compile settings (basename f)) = Inr []"
  proof
    assume t: "snd (handleSyncFilenameToHeading compile settings vault f) = Inl TypeError"
    obtain ms res where s: "sanitizeHeading compile settings (basename f) = (ms, res)"
      by (cases "sanitizeHeading compile settings (basename f)")
    show "snd (sanitizeHeading compile settings (basename f)) = Inr []"
    proof (cases res)
      case (Inl e)
      with s have "e = SyntaxError"
        using sanitizeHeading_error [of compile settings "basename f" e] by simp
      with s Inl t show ?thesis by (simp add: handleSyncFilenameToHeading_def)
    next
      case (Inr u)
      with s have "sanitizeHeading compile settings (basename f) = (ms, Inr u)" by simp
      from handleSyncFilenameToHeading_eq [OF this, of vault] t s Inr show ?thesis
        by (auto split: if_splits option.splits)
    qed
  qed
  from throws only show ?thesis by (rule conjI)
qed

text \<open>An instance: the basename \<open>#\<close> sanitizes to the empty string.\<close>

theorem empty_basename_throws_witness:
  "sanitizeHeading literal_compile DEFAULT_SETTINGS (basename (note_file ''#''))
     = ([empty_setting_notice], Inr [])
   \<and> handleSyncFilenameToHeading literal_compile DEFAULT_SETTINGS
         [''notes/#.md'' \<mapsto> ''Some text''] (note_file ''#'')
       = ([empty_setting_notice], Inl TypeError)
   \<and> snd (sanitizeHeading literal_compile DEFAULT_SETTINGS (basename (note_file ''#''))) = Inr []"
proof -
  let ?v = "[''notes/#.md'' \<mapsto> ''Some text'']"
  note T = empty_basename_throws
             [where vault = ?v and f = "note_file ''#''" and compile = literal_compile
                and settings = DEFAULT_SETTINGS and ns = "[empty_setting_notice]"]
  have h: "sanitizeHeading literal_compile DEFAULT_SETTINGS (basename (note_file ''#''))
     = ([empty_setting_notice], Inr [])"
    by code_simp
  from T [THEN conjunct1, THEN mp, OF h]
  have r: "handleSyncFilenameToHeading literal_compile DEFAULT_SETTINGS ?v (note_file ''#'')
       = ([empty_setting_notice], Inl TypeError)"
    by simp
  then have "snd (handleSyncFilenameToHeading literal_compile DEFAULT_SETTINGS ?v (note_file ''#''))
       = Inl TypeError" by simp
  from T [THEN conjunct2, THEN mp, OF this]
  have b: "snd (sanitizeHeading literal_compile DEFAULT_SETTINGS (basename (note_file ''#''))) = Inr []" .
  from h r b show ?thesis by simp
qed

text \<open>
  C10. \<open>deserializeRegExp "//g"\<close> makes no notice and returns the empty pattern with the
  global flag, whose \<open>exec\<close> finds a match (at index 0) in every string. So \<open>ignoreFile\<close>
  returns true for every file when the ignore list holds \<open>//g\<close> and the entries before it
  deserialize without error. (The settings panel puts \<open>//g\<close> in for a new entry and
  stores, for an edited one, the printed form of the expression that \<open>deserializeRegExp\<close>
  returned.)
\<close>

theorem empty_ignore_pattern_ignores_all:
  "deserializeRegExp compile ''//g'' = ([], Inr \<lparr>matcher = empty_pattern, flags = ''g''\<rparr>)
   \<and> (\<forall>p. RegExp_exec \<lparr>matcher = empty_pattern, flags = ''g''\<rparr> p = Some (0, 0))
   \<and> (\<forall>pre post. fileIgnoreRegexen settings = pre @ ''//g'' # post
          \<and> (\<forall>x \<in> set pre. \<exists>r. snd (deserializeRegExp compile x) = Inr r)
        \<longrightarrow> snd (ignoreFile compile settings fileCache f) = Inr True)"
proof (intro conjI allI impI)
  show "deserializeRegExp compile ''//g'' = ([], Inr \<lparr>matcher = empty_pattern, flags = ''g''\<rparr>)"
    by (rule deserialize_empty_pattern)
next
  fix p show "RegExp_exec \<lparr>matcher = empty_pattern, flags = ''g''\<rparr> p = Some (0, 0)"
    by (rule empty_pattern_exec)
next
  fix pre post
  assume a: "fileIgnoreRegexen settings = pre @ ''//g'' # post
          \<and> (\<forall>x \<in> set pre. \<exists>r. snd (deserializeRegExp compile x) = Inr r)"
  have "snd (ignore_loop compile (pre @ ''//g'' # post) (path f)) = Inr True"
    using a by (intro ignore_loop_hit [where r = "\<lparr>matcher = empty_pattern, flags = ''g''\<rparr>"])
               (simp_all add: deserialize_empty_pattern empty_pattern_exec)
  with a show "snd (ignoreFile compile settings fileCache f) = Inr True"
    by (simp add: ignoreFile_eq)
qed

text \<open>An instance: with \<open>//g\<close> after a pattern that does not match it, a plain markdown
  file is ignored.\<close>

theorem empty_ignore_pattern_ignores_all_witness:
  "fileIgnoreRegexen (ignoring [''/excalidraw/g'', ''//g'']) = [''/excalidraw/g''] @ ''//g'' # []
   \<and> snd (ignoreFile literal_compile (ignoring [''/excalidraw/g'', ''//g'']) None (note_file ''plain''))
       = Inr True"
proof -
  have e1: "case snd (deserializeRegExp literal_compile ''/excalidraw/g'') of
              Inl e \<Rightarrow> False | Inr r \<Rightarrow> True"
    by code_simp
  then have ok: "\<forall>x \<in> set [''/excalidraw/g'']. \<exists>r. snd (deserializeRegExp literal_compile x) = Inr r"
    by (auto split: sum.splits)
  have l: "fileIgnoreRegexen (ignoring [''/excalidraw/g'', ''//g'']) = [''/excalidraw/g''] @ ''//g'' # []"
    by (simp add: ignoring_def)
  from empty_ignore_pattern_ignores_all
         [where compile = literal_compile and settings = "ignoring [''/excalidraw/g'', ''//g'']"
            and fileCache = None and f = "note_file ''plain''"]
  have "\<forall>pre post. fileIgnoreRegexen (ignoring [''/excalidraw/g'', ''//g'']) = pre @ ''//g'' # post
          \<and> (\<forall>x \<in> set pre. \<exists>r. snd (deserializeRegExp literal_compile x) = Inr r)
        \<longrightarrow> snd (ignoreFile literal_compile (ignoring [''/excalidraw/g'', ''//g'']) None
                   (note_file ''plain'')) = Inr True"
    by blast
  with l ok show ?thesis by blast
qed

end
